(* ===== verification/Edc_Prelude.thy ===== *)
theory Edc_Prelude
  imports Main "HOL-Library.Word" "HOL-Library.Sublist"
begin

text \<open>
  The part of C and of the C library that the EVP agent uses, and the lemmas all the
  components share.

  \<^item> Machine integers: \<open>uint8_t\<close>, \<open>uint16_t\<close> and \<open>uint32_t\<close> are words of their width;
    an \<open>int\<close> is an \<open>int\<close> (where a signed overflow is possible the model writes it out).
  \<^item> Strings: a NUL-terminated string is the list of its characters before the NUL; a
    memory block is the list of all its bytes, and \<open>cstr\<close> is the string it holds.
  \<^item> \<open>errno\<close> values are those of Linux, the platform the build files name.
  \<^item> \<open>c_format\<close> interprets the conversions that the format strings of the sources use.
\<close>

unbundle bit_operations_syntax

named_theorems edc_frame \<open>globals an operation leaves alone\<close>

type_synonym u8 = "8 word"
type_synonym u16 = "16 word"
type_synonym u32 = "32 word"

section \<open>errno\<close>

definition EPERM :: int where [simp]: "EPERM = 1"
definition ENOENT :: int where [simp]: "ENOENT = 2"
definition EIO :: int where [simp]: "EIO = 5"
definition E2BIG :: int where [simp]: "E2BIG = 7"
definition ENOMEM :: int where [simp]: "ENOMEM = 12"
definition EINVAL :: int where [simp]: "EINVAL = 22"
definition ERANGE :: int where [simp]: "ERANGE = 34"
definition ELOOP :: int where [simp]: "ELOOP = 40"
definition EPROTO :: int where [simp]: "EPROTO = 71"
definition ENOTSUP :: int where [simp]: "ENOTSUP = 95"
definition ECONNABORTED :: int where [simp]: "ECONNABORTED = 103"
definition EHOSTUNREACH :: int where [simp]: "EHOSTUNREACH = 113"

definition INT_MAX :: int where "INT_MAX = 2 ^ 31 - 1"

section \<open>Strings\<close>

abbreviation NUL :: char where "NUL \<equiv> CHR 0x00"

definition cstr :: "char list \<Rightarrow> string" where
  "cstr buf = takeWhile (\<lambda>c. c \<noteq> NUL) buf"

fun strcmp :: "string \<Rightarrow> string \<Rightarrow> int" where
  "strcmp [] [] = 0"
| "strcmp [] (d # _) = - of_char d"
| "strcmp (c # _) [] = of_char c"
| "strcmp (c # s) (d # t) = (if c = d then strcmp s t else of_char c - of_char d)"

fun strncmp :: "string \<Rightarrow> string \<Rightarrow> nat \<Rightarrow> int" where
  "strncmp s t 0 = 0"
| "strncmp [] [] (Suc n) = 0"
| "strncmp [] (d # _) (Suc n) = - of_char d"
| "strncmp (c # _) [] (Suc n) = of_char c"
| "strncmp (c # s) (d # t) (Suc n) = (if c = d then strncmp s t n else of_char c - of_char d)"

fun strstr :: "string \<Rightarrow> string \<Rightarrow> string option" where
  "strstr [] needle = (if needle = [] then Some [] else None)"
| "strstr (c # cs) needle = (if prefix needle (c # cs) then Some (c # cs) else strstr cs needle)"

fun strrchr :: "string \<Rightarrow> char \<Rightarrow> string option" where
  "strrchr [] c = None"
| "strrchr (x # xs) c =
     (case strrchr xs c of Some r \<Rightarrow> Some r | None \<Rightarrow> if x = c then Some (x # xs) else None)"

text \<open>\<open>strncpy (dst, src, n)\<close> writes exactly \<open>n\<close> bytes: the source, padded with NULs.\<close>

definition strncpy :: "char list \<Rightarrow> string \<Rightarrow> nat \<Rightarrow> char list" where
  "strncpy dst src n = take n (src @ replicate n NUL) @ drop n dst"

text \<open>The bytes \<open>bs\<close> stored at the start of a block.\<close>

definition write_bytes :: "char list \<Rightarrow> char list \<Rightarrow> char list" where
  "write_bytes buf bs = bs @ drop (length bs) buf"

section \<open>Formatted output\<close>

datatype fmt_arg = FInt int | FStr string

definition digit_char :: "nat \<Rightarrow> char" where
  "digit_char d = (if d < 10 then char_of (48 + d) else char_of (87 + d))"

fun nat_base :: "nat \<Rightarrow> nat \<Rightarrow> string" where
  "nat_base b n =
     (if b < 2 \<or> n < b then [digit_char n] else nat_base b (n div b) @ [digit_char (n mod b)])"

declare nat_base.simps [simp del]

definition int_dec :: "int \<Rightarrow> string" where
  "int_dec i = (if i < 0 then CHR ''-'' # nat_base 10 (nat (- i)) else nat_base 10 (nat i))"

definition pad0 :: "nat \<Rightarrow> string \<Rightarrow> string" where
  "pad0 n s = replicate (n - length s) (CHR ''0'') @ s"

definition directives :: "string list" where
  "directives = [''d'', ''u'', ''zu'', ''zd'', ''x'', ''04d'', ''02d'', ''s'', ''.*s'', ''%'']"

definition convert_int :: "string \<Rightarrow> int \<Rightarrow> string" where
  "convert_int d i =
     (if d = ''x'' then nat_base 16 (nat (i mod 2 ^ 32))
      else if d = ''04d'' then pad0 4 (int_dec i)
      else if d = ''02d'' then pad0 2 (int_dec i)
      else int_dec i)"

text \<open>One conversion: the text it prints and the arguments it leaves.\<close>

definition convert :: "string \<Rightarrow> fmt_arg list \<Rightarrow> (string \<times> fmt_arg list) option" where
  "convert d args =
     (if d = ''%'' then Some (''%'', args)
      else if d = ''.*s'' then
        (case args of
           FInt n # FStr s # rest \<Rightarrow> Some (if n < 0 then s else take (nat n) s, rest)
         | _ \<Rightarrow> None)
      else if d = ''s'' then (case args of FStr s # rest \<Rightarrow> Some (s, rest) | _ \<Rightarrow> None)
      else (case args of FInt i # rest \<Rightarrow> Some (convert_int d i, rest) | _ \<Rightarrow> None))"

fun c_format :: "string \<Rightarrow> fmt_arg list \<Rightarrow> string option" where
  "c_format [] args = Some []"
| "c_format (c # cs) args =
     (if c \<noteq> CHR ''%'' then map_option (Cons c) (c_format cs args)
      else case find (\<lambda>d. prefix d cs) directives of
        None \<Rightarrow> None
      | Some d \<Rightarrow>
          (case convert d args of
             None \<Rightarrow> None
           | Some (t, rest) \<Rightarrow> map_option ((@) t) (c_format (drop (length d) cs) rest)))"

text \<open>
  The value \<open>vsnprintf\<close> returns: the length of the whole text, negative when the
  conversion fails or the length does not fit an \<open>int\<close>. What it stores in a buffer of
  \<open>n\<close> bytes is the first \<open>n - 1\<close> characters of the text.
\<close>

definition vsnprintf_ret :: "string \<Rightarrow> fmt_arg list \<Rightarrow> int" where
  "vsnprintf_ret fmt args =
     (case c_format fmt args of
        None \<Rightarrow> -1
      | Some t \<Rightarrow> if int (length t) \<le> INT_MAX then int (length t) else -1)"

definition vsnprintf_text :: "nat \<Rightarrow> string \<Rightarrow> fmt_arg list \<Rightarrow> string" where
  "vsnprintf_text n fmt args =
     (case c_format fmt args of None \<Rightarrow> [] | Some t \<Rightarrow> take (n - 1) t)"

section \<open>Lemmas on strings and buffers\<close>

lemma of_char_int_eq_0 [simp]: "(of_char c = (0::int)) = (c = NUL)"
  using of_char_eq_iff [of c NUL, where ?'a = int] by simp

lemma strcmp_eq_0:
  "NUL \<notin> set s \<Longrightarrow> NUL \<notin> set t \<Longrightarrow> strcmp s t = 0 \<longleftrightarrow> s = t"
  by (induction s t rule: strcmp.induct) auto

lemma strncmp_prefix:
  "NUL \<notin> set t \<Longrightarrow> strncmp s t (length t) = 0 \<longleftrightarrow> prefix t s"
proof (induction t arbitrary: s)
  case Nil
  then show ?case by simp
next
  case (Cons d t)
  then show ?case by (cases s) auto
qed

lemma strstr_sublist: "strstr h n \<noteq> None \<longleftrightarrow> sublist n h"
  by (induction h) (auto simp: sublist_Cons_right)

lemma strrchr_None: "strrchr s c = None \<longleftrightarrow> c \<notin> set s"
  by (induction s) (auto split: option.splits)

lemma strrchr_Some: "strrchr s c = Some r \<Longrightarrow> \<exists>p q. s = p @ r \<and> r = c # q \<and> c \<notin> set q"
proof (induction s)
  case Nil
  then show ?case by simp
next
  case (Cons x xs)
  show ?case
  proof (cases "strrchr xs c")
    case None
    with Cons.prems show ?thesis by (auto simp: strrchr_None split: if_splits)
  next
    case (Some r')
    with Cons show ?thesis by (auto intro: exI [of _ "x # _"])
  qed
qed

lemma cstr_no_NUL [simp]: "NUL \<notin> set (cstr buf)"
  by (auto simp: cstr_def dest: set_takeWhileD)

lemma cstr_id: "NUL \<notin> set s \<Longrightarrow> cstr s = s"
  by (induction s) (auto simp: cstr_def)

lemma cstr_append_NUL: "NUL \<notin> set s \<Longrightarrow> cstr (s @ NUL # rest) = s"
  by (induction s) (auto simp: cstr_def)

lemma cstr_append: "cstr (s @ t) = (if NUL \<in> set s then cstr s else s @ cstr t)"
  by (induction s) (auto simp: cstr_def)

lemma length_cstr_less: "NUL \<in> set buf \<Longrightarrow> length (cstr buf) < length buf"
  unfolding cstr_def by (induction buf) auto

lemma length_cstr_le: "length (cstr buf) \<le> length buf"
  by (simp add: cstr_def length_takeWhile_le)

lemma cstr_replicate_NUL [simp]: "cstr (replicate n NUL) = []"
  by (cases n) (simp_all add: cstr_def)

lemma length_strncpy [simp]: "n \<le> length dst \<Longrightarrow> length (strncpy dst src n) = length dst"
  by (simp add: strncpy_def)

lemma length_write_bytes [simp]: "length bs \<le> length buf \<Longrightarrow> length (write_bytes buf bs) = length buf"
  by (simp add: write_bytes_def)

lemma take_update_last:
  assumes "0 < n" "n \<le> length xs"
  shows "(take n xs)[n - 1 := c] = take (n - 1) xs @ [c]"
proof -
  obtain m where m: "n = Suc m" using assms(1) by (cases n) simp_all
  with assms(2) have "take n xs = take m xs @ [xs ! m]" and "length (take m xs) = m"
    by (simp_all add: take_Suc_conv_app_nth)
  with m show ?thesis by (simp add: list_update_append)
qed

text \<open>
  The idiom \<open>strncpy (buf, src, n); buf[n - 1] = 0\<close> leaves the source cut to \<open>n - 1\<close>
  characters, whatever the block held before.
\<close>

lemma cstr_strncpy_terminated:
  assumes "NUL \<notin> set src" "0 < n" "n \<le> length dst"
  shows "cstr ((strncpy dst src n)[n - 1 := NUL]) = take (n - 1) src"
proof -
  let ?pad = "src @ replicate n NUL"
  have "(strncpy dst src n)[n - 1 := NUL] = (take n ?pad)[n - 1 := NUL] @ drop n dst"
    using assms by (simp add: strncpy_def list_update_append)
  also have "(take n ?pad)[n - 1 := NUL] = take (n - 1) ?pad @ [NUL]"
    using assms(2) by (intro take_update_last) simp_all
  finally have eq: "(strncpy dst src n)[n - 1 := NUL] = take (n - 1) ?pad @ NUL # drop n dst"
    by simp
  have nn: "NUL \<notin> set (take (n - 1) src)"
    using assms(1) by (meson in_set_takeD)
  show ?thesis
  proof (cases "n - 1 \<le> length src")
    case True
    with nn show ?thesis unfolding eq by (simp add: cstr_append_NUL)
  next
    case False
    then have "take (n - 1) ?pad = src @ NUL # replicate (n - 2 - length src) NUL"
      by (cases "n - 1 - length src") (auto simp: min_def)
    with nn False assms(1) show ?thesis unfolding eq by (simp add: cstr_append_NUL)
  qed
qed

lemma nat_base_nonempty [simp]: "nat_base b n \<noteq> []"
  by (subst nat_base.simps) simp

lemma int_dec_nonempty [simp]: "int_dec i \<noteq> []"
  by (simp add: int_dec_def)

lemma digit_char_not_NUL: "d < 36 \<Longrightarrow> digit_char d \<noteq> NUL"
  by (auto simp: digit_char_def char_of_eq_iff take_bit_eq_mod)

lemma nat_base_no_NUL: "2 \<le> b \<Longrightarrow> b \<le> 36 \<Longrightarrow> NUL \<notin> set (nat_base b n)"
proof (induction b n rule: nat_base.induct)
  case (1 b n)
  show ?case
  proof (cases "n < b")
    case True
    with 1 show ?thesis by (subst nat_base.simps) (use digit_char_not_NUL [of n] in simp)
  next
    case False
    with 1 show ?thesis
      by (subst nat_base.simps) (use digit_char_not_NUL [of "n mod b"] in
          \<open>simp add: less_le_trans [OF mod_less_divisor]\<close>)
  qed
qed

lemma int_dec_no_NUL [simp]: "NUL \<notin> set (int_dec i)"
  using nat_base_no_NUL [of 10] by (simp add: int_dec_def)

lemma digit_char_decimal:
  "digit_char 0 = CHR ''0''" "digit_char 1 = CHR ''1''" "digit_char 2 = CHR ''2''"
  "digit_char 3 = CHR ''3''" "digit_char 4 = CHR ''4''" "digit_char 5 = CHR ''5''"
  "digit_char 6 = CHR ''6''" "digit_char 7 = CHR ''7''" "digit_char 8 = CHR ''8''"
  "digit_char 9 = CHR ''9''"
  by code_simp+

text \<open>Reading a decimal numeral back.\<close>

definition dec_value :: "string \<Rightarrow> nat" where
  "dec_value s = foldl (\<lambda>a c. 10 * a + (of_char c - 48)) 0 s"

lemma dec_value_snoc: "dec_value (s @ [c]) = 10 * dec_value s + (of_char c - 48)"
  by (simp add: dec_value_def)

lemma of_char_digit: "d < 10 \<Longrightarrow> (of_char (digit_char d) :: nat) = 48 + d"
  by (simp add: digit_char_def)

lemma dec_value_nat_base: "dec_value (nat_base 10 n) = n"
proof (induction n rule: less_induct)
  case (less n)
  show ?case
  proof (cases "n < 10")
    case True
    then show ?thesis by (subst nat_base.simps) (simp add: dec_value_def of_char_digit)
  next
    case False
    with less have "dec_value (nat_base 10 (n div 10)) = n div 10" by simp
    with False show ?thesis
      by (subst nat_base.simps) (simp add: dec_value_snoc of_char_digit)
  qed
qed

lemma length_nat_base: "n < 10 ^ k \<Longrightarrow> 0 < k \<Longrightarrow> length (nat_base 10 n) \<le> k"
proof (induction k arbitrary: n)
  case 0
  then show ?case by simp
next
  case (Suc k)
  show ?case
  proof (cases "n < 10")
    case True
    then show ?thesis by (subst nat_base.simps) simp
  next
    case False
    with Suc.prems have k: "0 < k" by (cases k) simp_all
    from Suc.prems have "n div 10 < 10 ^ k" by (simp add: less_mult_imp_div_less mult.commute)
    with k False Suc.IH [of "n div 10"] show ?thesis by (subst nat_base.simps) simp
  qed
qed

end
