(* ===== verification/Platform.thy ===== *)
theory Platform
  imports Edc_Prelude
begin

text \<open>
  The boundary of the program: the code it calls that is not in the repository (the ESF
  managers, the UtilityLog library, the EVP agent library, WAMR, the operating system) and
  the part of the machine that its own memory discipline depends on.

  \<^item> \<open>ext_call\<close> lists every external call with the arguments the sources pass. A run of
    the program records its calls, oldest first, in the field \<open>trace\<close> of its state.
  \<^item> What an external call answers is not fixed: it is a function of the history of calls
    and of the arguments, a field of an environment record. A history-dependent answer
    describes any run of any external component, so a theorem over all environments holds
    whatever the external code does; where the program relies on documented behaviour the
    theorem has it as a hypothesis on the environment.
  \<^item> The heap is the set \<open>live\<close> of allocated block numbers. \<open>malloc\<close> fails whenever the
    environment says so and otherwise returns the block number \<open>fresh\<close>.
  \<^item> \<open>ub\<close> records that the run has executed undefined behaviour: a release of a block
    that is not allocated, an access outside a block, a NULL string handed to a string
    function, a signed overflow, the use of a released agent context. Once set it stays.
\<close>

section \<open>External calls\<close>

datatype mutex = elog_entry_mutex | g_evp_agent_lock | g_wasm_native_symbols_lock

datatype dlog_level =
    kUtilityLogDlogLevelTrace | kUtilityLogDlogLevelDebug | kUtilityLogDlogLevelInfo
  | kUtilityLogDlogLevelWarn | kUtilityLogDlogLevelError | kUtilityLogDlogLevelCritical

datatype alloc_site =
    Alloc_max_logstr
  | Alloc_log_buf nat
  | Alloc_EsfNetworkManagerParameter
  | Alloc_strdup string
  | Alloc_asprintf string
  | Alloc_config_buf nat
  | Alloc_config
  | Alloc_project_id nat
  | Alloc_register_token nat
  | Alloc_native_symbol_entry

datatype led_status =
    kEsfLedManagerLedStatusConnectedWithTLS
  | kEsfLedManagerLedStatusConnectedWithoutTLS
  | kEsfLedManagerLedStatusDisconnectedConnectingWithTLS
  | kEsfLedManagerLedStatusDisconnectedConnectingWithoutTLS

datatype led_target = kEsfLedManagerTargetLedService

record led_status_info =
  li_led :: led_target
  li_status :: led_status
  li_enabled :: bool

text \<open>The strings the system manager keeps: \<open>EsfSystemManagerGetRootCa\<close> and its siblings are
  one call with the item as an argument.\<close>

datatype sysmgr_item = RootCa | EvpHubUrl | EvpHubPort | EvpIotPlatform | ProjectId | RegisterToken

text \<open>The fields of the parameter mask of \<open>EsfNetworkManagerLoadParameter\<close> that the sources set, and the
  reboot type they ask for.\<close>

datatype proxy_field = Mask_proxy_url | Mask_proxy_port | Mask_proxy_username | Mask_proxy_password

datatype reboot_type = kEsfSystemManagerRebootTypeEvpMemoryAllocFailure

datatype notification_handler =
    Handler_blob_result | Handler_mqtt_sync_result | Handler_network_error | Handler_agent_status

datatype os_call =
    Call_malloc alloc_site
  | Call_free nat
  | Call_mutex_lock mutex
  | Call_mutex_unlock mutex
  | Call_getenv string
  | Call_opendir string
  | Call_closedir string
  | Call_open string
  | Call_read int nat
  | Call_close int
  | Call_clock_gettime
  | Call_localtime_r int
  | Call_pthread_setname_np string
  | Call_pthread_create
  | Call_pthread_join
  | Call_pthread_exit int

datatype esf_call =
    Call_WRITE_DLOG dlog_level string "fmt_arg list"
  | Call_UtilityLogWriteDLog dlog_level string "fmt_arg list"
  | Call_UtilityLogWriteELog u16
  | Call_EsfSystemManagerExecReboot reboot_type
  | Call_EsfSystemManagerGetEvpTls
  | Call_EsfSystemManagerGet sysmgr_item nat
  | Call_EsfNetworkManagerLoadParameter "proxy_field list"
  | Call_EsfLedManagerSetStatus led_status_info
  | Call_EsfPwrMgrSwWdtStart nat
  | Call_EsfPwrMgrSwWdtKeepalive nat
  | Call_EsfPwrMgrSwWdtStop nat
  | Call_mbedtls_platform_zeroize nat

datatype evp_call =
    Call_evp_agent_setup string
  | Call_evp_agent_platform_register nat
  | Call_evp_agent_notification_subscribe nat string notification_handler
  | Call_evp_agent_start nat
  | Call_evp_agent_connect nat
  | Call_evp_agent_loop nat
  | Call_evp_agent_disconnect nat
  | Call_evp_agent_stop nat
  | Call_evp_agent_free nat
  | Call_evp_agent_get_status nat
  | Call_evp_agent_register_sys_client nat
  | Call_evp_agent_unregister_sys_client nat nat
  | Call_evp_agent_undeploy_all nat
  | Call_evp_agent_empty_deployment_has_completed nat
  | Call_wasm_runtime_register_natives string nat u32
  | Call_wasm_add_native_lib string

datatype ext_call = OS os_call | ESF esf_call | EVP evp_call

type_synonym history = "ext_call list"

section \<open>The machine\<close>

record io_state =
  trace :: history
  live :: "nat set"
  fresh :: nat
  ub :: bool

text \<open>What the operating system answers: whether an allocation succeeds, and the byte an
  uninitialised block holds.\<close>

record libc_env =
  env_malloc :: "history \<Rightarrow> alloc_site \<Rightarrow> bool"
  env_uninit :: "history \<Rightarrow> char"
  env_errno :: "history \<Rightarrow> int"

definition emit :: "ext_call \<Rightarrow> 's io_state_scheme \<Rightarrow> 's io_state_scheme" where
  "emit c s = s\<lparr>trace := trace s @ [c]\<rparr>"

definition undefined_behaviour :: "'s io_state_scheme \<Rightarrow> 's io_state_scheme" where
  "undefined_behaviour s = s\<lparr>ub := True\<rparr>"

definition c_malloc ::
  "'e libc_env_scheme \<Rightarrow> alloc_site \<Rightarrow> 's io_state_scheme \<Rightarrow> nat option \<times> 's io_state_scheme" where
  "c_malloc env site s =
     (if env_malloc env (trace s) site
      then (Some (fresh s),
            (emit (OS (Call_malloc site)) s)
              \<lparr>live := insert (fresh s) (live s), fresh := Suc (fresh s)\<rparr>)
      else (None, emit (OS (Call_malloc site)) s))"

text \<open>\<open>free (NULL)\<close> does nothing; releasing a block that is not allocated is undefined.\<close>

definition c_free :: "nat option \<Rightarrow> 's io_state_scheme \<Rightarrow> 's io_state_scheme" where
  "c_free p s =
     (case p of
        None \<Rightarrow> s
      | Some b \<Rightarrow>
          (if b \<in> live s then (emit (OS (Call_free b)) s)\<lparr>live := live s - {b}\<rparr>
           else undefined_behaviour (emit (OS (Call_free b)) s)))"

text \<open>Every allocated block was handed out by \<open>malloc\<close>, so the next one is new.\<close>

definition heap_wf :: "'s io_state_scheme \<Rightarrow> bool" where
  "heap_wf s \<longleftrightarrow> (\<forall>b \<in> live s. b < fresh s)"

definition mutex_lock :: "mutex \<Rightarrow> 's io_state_scheme \<Rightarrow> 's io_state_scheme" where
  "mutex_lock m = emit (OS (Call_mutex_lock m))"

definition mutex_unlock :: "mutex \<Rightarrow> 's io_state_scheme \<Rightarrow> 's io_state_scheme" where
  "mutex_unlock m = emit (OS (Call_mutex_unlock m))"

section \<open>The lock discipline of a history\<close>

text \<open>
  \<open>lock_run\<close> follows the mutexes one thread holds along its history. It is \<open>None\<close> when the
  thread locks a default mutex it already holds (it would wait for itself) or unlocks one
  it does not hold.
\<close>

fun lock_run :: "history \<Rightarrow> mutex set \<Rightarrow> mutex set option" where
  "lock_run [] h = Some h"
| "lock_run (OS (Call_mutex_lock m) # cs) h = (if m \<in> h then None else lock_run cs (insert m h))"
| "lock_run (OS (Call_mutex_unlock m) # cs) h = (if m \<in> h then lock_run cs (h - {m}) else None)"
| "lock_run (c # cs) h = lock_run cs h"

definition lock_call :: "ext_call \<Rightarrow> bool" where
  "lock_call c \<longleftrightarrow> (\<exists>m. c = OS (Call_mutex_lock m) \<or> c = OS (Call_mutex_unlock m))"

definition balanced :: "history \<Rightarrow> bool" where
  "balanced cs \<longleftrightarrow> lock_run cs {} = Some {}"

lemma lock_run_append: "lock_run (xs @ ys) h = Option.bind (lock_run xs h) (lock_run ys)"
  by (induction xs h rule: lock_run.induct) auto

lemma lock_run_other: "\<not> lock_call c \<Longrightarrow> lock_run (c # cs) h = lock_run cs h"
  by (cases c; cases "case c of OS oc \<Rightarrow> oc | _ \<Rightarrow> Call_pthread_join") (auto simp: lock_call_def)

lemma balanced_Nil [simp]: "balanced []"
  by (simp add: balanced_def)

lemma balanced_append: "balanced xs \<Longrightarrow> balanced ys \<Longrightarrow> balanced (xs @ ys)"
  by (simp add: balanced_def lock_run_append)

lemma balanced_other: "\<not> lock_call c \<Longrightarrow> balanced (c # cs) = balanced cs"
  by (simp add: balanced_def lock_run_other)

text \<open>A critical section: lock, calls that touch no mutex, unlock.\<close>

lemma lock_run_no_lock: "(\<forall>c \<in> set cs. \<not> lock_call c) \<Longrightarrow> lock_run cs h = Some h"
  by (induction cs) (simp_all add: lock_run_other)

lemma balanced_section:
  assumes "\<forall>c \<in> set cs. \<not> lock_call c"
  shows "balanced (OS (Call_mutex_lock m) # cs @ [OS (Call_mutex_unlock m)])"
  by (simp add: balanced_def lock_run_append lock_run_no_lock [OF assms])

section \<open>Lemmas on the machine\<close>

lemma emit_simps [simp]:
  "trace (emit c s) = trace s @ [c]" "live (emit c s) = live s"
  "fresh (emit c s) = fresh s" "ub (emit c s) = ub s" "io_state.more (emit c s) = io_state.more s"
  by (simp_all add: emit_def)

lemma undefined_behaviour_simps [simp]:
  "trace (undefined_behaviour s) = trace s" "live (undefined_behaviour s) = live s"
  "fresh (undefined_behaviour s) = fresh s" "ub (undefined_behaviour s)"
  "io_state.more (undefined_behaviour s) = io_state.more s"
  by (simp_all add: undefined_behaviour_def)

lemma mutex_simps [simp]:
  "trace (mutex_lock m s) = trace s @ [OS (Call_mutex_lock m)]"
  "trace (mutex_unlock m s) = trace s @ [OS (Call_mutex_unlock m)]"
  "live (mutex_lock m s) = live s" "live (mutex_unlock m s) = live s"
  "fresh (mutex_lock m s) = fresh s" "fresh (mutex_unlock m s) = fresh s"
  "ub (mutex_lock m s) = ub s" "ub (mutex_unlock m s) = ub s"
  by (simp_all add: mutex_lock_def mutex_unlock_def)

lemma heap_wf_fresh [simp]: "heap_wf s \<Longrightarrow> fresh s \<notin> live s"
  by (auto simp: heap_wf_def)

lemma c_malloc_Some:
  "c_malloc env site s = (Some b, s') \<longleftrightarrow>
     env_malloc env (trace s) site \<and> b = fresh s \<and>
     s' = s\<lparr>trace := trace s @ [OS (Call_malloc site)], live := insert (fresh s) (live s),
            fresh := Suc (fresh s)\<rparr>"
  by (auto simp: c_malloc_def emit_def)

lemma c_malloc_None:
  "c_malloc env site s = (None, s') \<longleftrightarrow>
     \<not> env_malloc env (trace s) site \<and> s' = s\<lparr>trace := trace s @ [OS (Call_malloc site)]\<rparr>"
  by (auto simp: c_malloc_def emit_def)

lemma c_free_None [simp]: "c_free None s = s"
  by (simp add: c_free_def)

lemma c_free_Some:
  "b \<in> live s \<Longrightarrow>
     c_free (Some b) s = s\<lparr>trace := trace s @ [OS (Call_free b)], live := live s - {b}\<rparr>"
  by (simp add: c_free_def emit_def)

lemma c_free_simps [simp]:
  "fresh (c_free p s) = fresh s" "live (c_free p s) = live s - set_option p"
  "ub (c_free p s) = (ub s \<or> \<not> set_option p \<subseteq> live s)"
  "trace (c_free p s) = trace s @ (case p of None \<Rightarrow> [] | Some b \<Rightarrow> [OS (Call_free b)])"
  by (auto simp: c_free_def emit_def undefined_behaviour_def split: option.splits)

section \<open>Steps that only call and allocate\<close>

text \<open>
  \<open>allocs P B s s'\<close>: between \<open>s\<close> and \<open>s'\<close> the program made external calls of the kind \<open>P\<close>
  and left the new blocks \<open>B\<close> allocated; every other block is as before, nothing undefined
  happened and no global of any component changed. A step is quiet when \<open>B\<close> is empty.
\<close>

definition allocs ::
  "(ext_call \<Rightarrow> bool) \<Rightarrow> nat set \<Rightarrow> 's io_state_scheme \<Rightarrow> 's io_state_scheme \<Rightarrow> bool" where
  "allocs P B s s' \<longleftrightarrow> (\<exists>cs n. s' = s\<lparr>trace := trace s @ cs, live := live s \<union> B, fresh := fresh s + n\<rparr> \<and>
     list_all P cs \<and> B \<subseteq> {fresh s ..< fresh s + n})"

abbreviation quiet :: "(ext_call \<Rightarrow> bool) \<Rightarrow> 's io_state_scheme \<Rightarrow> 's io_state_scheme \<Rightarrow> bool" where
  "quiet P \<equiv> allocs P {}"

lemma allocsI:
  "s' = s\<lparr>trace := trace s @ cs, live := live s \<union> B, fresh := fresh s + n\<rparr> \<Longrightarrow> list_all P cs \<Longrightarrow>
     B \<subseteq> {fresh s ..< fresh s + n} \<Longrightarrow> allocs P B s s'"
  unfolding allocs_def by blast

lemma allocsE:
  assumes "allocs P B s s'"
  obtains cs n where "s' = s\<lparr>trace := trace s @ cs, live := live s \<union> B, fresh := fresh s + n\<rparr>"
    "list_all P cs" "B \<subseteq> {fresh s ..< fresh s + n}"
  using assms unfolding allocs_def by blast

lemma allocs_refl [simp]: "quiet P s s"
  by (rule allocsI [where cs = "[]" and n = 0]) simp_all

lemma allocs_trans:
  assumes "allocs P B s t" "allocs P C t u"
  shows "allocs P (B \<union> C) s u"
proof -
  obtain cs n where t: "t = s\<lparr>trace := trace s @ cs, live := live s \<union> B, fresh := fresh s + n\<rparr>"
    "list_all P cs" "B \<subseteq> {fresh s ..< fresh s + n}" using assms(1) by (rule allocsE)
  obtain ds k where u: "u = t\<lparr>trace := trace t @ ds, live := live t \<union> C, fresh := fresh t + k\<rparr>"
    "list_all P ds" "C \<subseteq> {fresh t ..< fresh t + k}" using assms(2) by (rule allocsE)
  from t u show ?thesis
    by (intro allocsI [where cs = "cs @ ds" and n = "n + k"]) (auto simp: add.assoc Un_assoc)
qed

lemma quiet_trans: "quiet P s t \<Longrightarrow> quiet P t u \<Longrightarrow> quiet P s u"
  using allocs_trans [of P "{}" s t "{}" u] by simp

lemma allocs_quiet: "allocs P B s t \<Longrightarrow> quiet P t u \<Longrightarrow> allocs P B s u"
  using allocs_trans [of P B s t "{}" u] by simp

lemma quiet_allocs: "quiet P s t \<Longrightarrow> allocs P B t u \<Longrightarrow> allocs P B s u"
  using allocs_trans [of P "{}" s t B u] by simp

lemma quiet_emit: "P c \<Longrightarrow> quiet P s (emit c s)"
  by (rule allocsI [where cs = "[c]" and n = 0]) (simp_all add: emit_def)

lemma allocs_emit: "allocs P B s t \<Longrightarrow> P c \<Longrightarrow> allocs P B s (emit c t)"
  by (rule allocs_quiet [OF _ quiet_emit])

lemma allocs_mono: "allocs P B s t \<Longrightarrow> (\<And>c. P c \<Longrightarrow> Q c) \<Longrightarrow> allocs Q B s t"
  unfolding allocs_def by (metis list_all_iff)

lemma allocs_malloc:
  assumes "c_malloc env site s = (p, s')" "P (OS (Call_malloc site))"
  shows "allocs P (set_option p) s s'"
proof (cases p)
  case None
  with assms show ?thesis
    by (intro allocsI [where cs = "[OS (Call_malloc site)]" and n = 0]) (simp_all add: c_malloc_None)
next
  case (Some b)
  with assms show ?thesis
    by (intro allocsI [where cs = "[OS (Call_malloc site)]" and n = 1]) (simp_all add: c_malloc_Some)
qed

lemma allocs_free:
  assumes "allocs P B s t" "heap_wf s" "set_option p \<subseteq> B" "\<And>b. P (OS (Call_free b))"
  shows "allocs P (B - set_option p) s (c_free p t)"
proof (cases p)
  case None
  with assms show ?thesis by simp
next
  case (Some b)
  obtain cs n where t: "t = s\<lparr>trace := trace s @ cs, live := live s \<union> B, fresh := fresh s + n\<rparr>"
    "list_all P cs" "B \<subseteq> {fresh s ..< fresh s + n}" using assms(1) by (rule allocsE)
  from Some assms(3) t have b: "b \<in> live t" "b \<in> B" by auto
  with t assms(2) have "b \<notin> live s" by (fastforce simp: heap_wf_def)
  then have "live s \<union> B - {b} = live s \<union> (B - {b})" by auto
  with b t assms(4) Some show ?thesis
    by (intro allocsI [where cs = "cs @ [OS (Call_free b)]" and n = n]) (auto simp: c_free_Some)
qed

lemma allocs_free_all:
  "allocs P (set_option p) s t \<Longrightarrow> heap_wf s \<Longrightarrow> (\<And>b. P (OS (Call_free b))) \<Longrightarrow> quiet P s (c_free p t)"
  using allocs_free [of P "set_option p" s t p] by simp

lemma allocs_facts:
  assumes "allocs P B s t"
  shows "live t = live s \<union> B" "ub t = ub s" "io_state.more t = io_state.more s"
    "fresh s \<le> fresh t" "B \<subseteq> {fresh s ..< fresh t}" "\<exists>cs. trace t = trace s @ cs \<and> list_all P cs"
  using assms by (auto elim!: allocsE)

lemma allocs_heap_wf: "allocs P B s t \<Longrightarrow> heap_wf s \<Longrightarrow> heap_wf t"
  by (fastforce simp: heap_wf_def elim: allocsE)

text \<open>Calls that touch no mutex, report no event and drive no device.\<close>

fun neutral :: "ext_call \<Rightarrow> bool" where
  "neutral (OS (Call_mutex_lock m)) = False"
| "neutral (OS (Call_mutex_unlock m)) = False"
| "neutral (OS _) = True"
| "neutral (ESF (Call_UtilityLogWriteELog e)) = False"
| "neutral (ESF (Call_EsfSystemManagerExecReboot r)) = False"
| "neutral (ESF (Call_EsfLedManagerSetStatus i)) = False"
| "neutral (ESF (Call_EsfPwrMgrSwWdtStart i)) = False"
| "neutral (ESF (Call_EsfPwrMgrSwWdtKeepalive i)) = False"
| "neutral (ESF (Call_EsfPwrMgrSwWdtStop i)) = False"
| "neutral (ESF _) = True"
| "neutral (EVP _) = False"

lemma neutral_not_lock: "neutral c \<Longrightarrow> \<not> lock_call c"
  by (auto simp: lock_call_def)

lemma neutral_balanced: "list_all neutral cs \<Longrightarrow> balanced cs"
  by (induction cs) (auto simp: balanced_other neutral_not_lock)

end
