(* ===== verification/Log.thy ===== *)
theory Log
  imports Platform
begin

text \<open>
  \<open>log.h\<close> and \<open>log.c\<close>: the logging macros, \<open>SystemDlog\<close>, the log handler the agent library
  calls, and the table of event-log codes with its three operations.

  The table \<open>elog_array\<close> is an array of 128 entries of which the first \<open>last\<close> are in use.
  Its abstraction \<open>elog_map\<close> maps a registered component to its code; the lemmas show that
  the operations implement this map (first registration wins), report a code to the event
  log exactly when it changes, and follow the lock discipline.
\<close>

section \<open>Macros\<close>

definition MAX_LOG_STR_LEN :: nat where "MAX_LOG_STR_LEN = 4096"
definition MIN_LOG_STR_LEN :: nat where "MIN_LOG_STR_LEN = 128"
definition ELOG_ERR :: u8 where "ELOG_ERR = 0xFF"
definition LOG_BUFFER_SIZE :: int where "LOG_BUFFER_SIZE = 4096"
definition LOG_CHUNK_SIZE :: nat where "LOG_CHUNK_SIZE = 256"
definition MAX_ELOG_ENTRY :: nat where "MAX_ELOG_ENTRY = 128"

definition EVP_FILE_NAME :: "string \<Rightarrow> string" where
  "EVP_FILE_NAME file =
     (case strrchr file (CHR ''/'') of Some r \<Rightarrow> drop 1 r | None \<Rightarrow> file)"

definition EVP_AGENT_ERR :: "string \<Rightarrow> int \<Rightarrow> string \<Rightarrow> fmt_arg list \<Rightarrow> ext_call" where
  "EVP_AGENT_ERR file line fmt args =
     ESF (Call_WRITE_DLOG kUtilityLogDlogLevelError (''%s %d [ERR] '' @ fmt)
       (FStr (EVP_FILE_NAME file) # FInt line # args))"

definition EVP_AGENT_WARN :: "string \<Rightarrow> int \<Rightarrow> string \<Rightarrow> fmt_arg list \<Rightarrow> ext_call" where
  "EVP_AGENT_WARN file line fmt args =
     ESF (Call_WRITE_DLOG kUtilityLogDlogLevelWarn (''%s %d [WAR] '' @ fmt)
       (FStr (EVP_FILE_NAME file) # FInt line # args))"

definition EVP_AGENT_INFO :: "string \<Rightarrow> int \<Rightarrow> string \<Rightarrow> fmt_arg list \<Rightarrow> ext_call" where
  "EVP_AGENT_INFO file line fmt args =
     ESF (Call_WRITE_DLOG kUtilityLogDlogLevelInfo (''%s %d [INF] '' @ fmt)
       (FStr (EVP_FILE_NAME file) # FInt line # args))"

section \<open>State\<close>

record elog_entry =
  elog_component :: u8
  elog_code :: u8
  elog_updated :: bool
  elog_msg :: "string option"

record log_state = io_state +
  elog_array :: "elog_entry list"
  elog_last :: int

datatype utility_log_status = kUtilityLogStatusOk | UtilityLogStatusError nat

record log_env = libc_env +
  env_UtilityLogWriteELog :: "history \<Rightarrow> u16 \<Rightarrow> utility_log_status"

text \<open>The static table before any registration.\<close>

definition elog_array_init :: "elog_entry list" where
  "elog_array_init = replicate MAX_ELOG_ENTRY
     \<lparr>elog_component = 0, elog_code = 0, elog_updated = False, elog_msg = None\<rparr>"

section \<open>The table of event-log codes\<close>

definition ELOG_ARRAY_SIZE :: "int \<Rightarrow> int" where
  "ELOG_ARRAY_SIZE n = (if n \<ge> int MAX_ELOG_ENTRY then int MAX_ELOG_ENTRY else n)"

function component_to_entry_loop ::
  "elog_entry list \<Rightarrow> int \<Rightarrow> u8 \<Rightarrow> nat \<Rightarrow> nat option" where
  "component_to_entry_loop arr n c i =
     (if int i < n then
        (if elog_component (arr ! i) = c then Some i
         else component_to_entry_loop arr n c (Suc i))
      else None)"
  by pat_completeness auto
termination
  by (relation "measure (\<lambda>(arr, n, c, i). nat (n - int i))") auto

declare component_to_entry_loop.simps [simp del]

definition component_to_entry :: "'s log_state_scheme \<Rightarrow> u8 \<Rightarrow> nat option" where
  "component_to_entry s c =
     component_to_entry_loop (elog_array s) (ELOG_ARRAY_SIZE (elog_last s)) c 0"

text \<open>
  \<open>assert (pthread_mutex_lock (\<dots>) == 0)\<close>. The model is the program as \<open>meson.build\<close> builds it:
  no build file defines \<open>NDEBUG\<close> (under which the calls inside \<open>assert\<close> would vanish and the
  table would be accessed without the mutex), and a run ends when the assertion fails, so
  that a run that goes on is one in which the call succeeded. The mutex is a default one; the
  errors POSIX names for such a lock are misuse, which \<open>elog_run_lock_discipline\<close> excludes.
\<close>

definition elog_lock :: "'s log_state_scheme \<Rightarrow> 's log_state_scheme" where
  "elog_lock = mutex_lock elog_entry_mutex"

definition elog_unlock :: "'s log_state_scheme \<Rightarrow> 's log_state_scheme" where
  "elog_unlock = mutex_unlock elog_entry_mutex"

definition SystemRegElog :: "u8 \<Rightarrow> u8 \<Rightarrow> string \<Rightarrow> 's log_state_scheme \<Rightarrow> 's log_state_scheme" where
  "SystemRegElog component init_value msg s =
     (let s1 = elog_lock s;
          s2 = (if elog_last s1 < int MAX_ELOG_ENTRY then
                  s1\<lparr>elog_array := (elog_array s1)[nat (elog_last s1) :=
                       \<lparr>elog_component = component, elog_code = init_value,
                        elog_updated = False, elog_msg = Some msg\<rparr>],
                     elog_last := elog_last s1 + 1\<rparr>
                else emit (EVP_AGENT_WARN ''log.c'' 127
                       ''Elog array is full. Cannot register component: 0x%x''
                       [FInt (uint component)]) s1)
      in elog_unlock s2)"

definition elog_event_id :: "u8 \<Rightarrow> u8 \<Rightarrow> u16" where
  "elog_event_id component code = push_bit 8 (ucast component) OR ucast code"

definition SystemSetELog ::
  "'e log_env_scheme \<Rightarrow> u8 \<Rightarrow> u8 \<Rightarrow> 's log_state_scheme \<Rightarrow> int \<times> 's log_state_scheme" where
  "SystemSetELog env component code s =
     (let s1 = elog_lock s in
      case component_to_entry s1 component of
        None \<Rightarrow> (- ENOENT, elog_unlock s1)
      | Some i \<Rightarrow>
          (if elog_code (elog_array s1 ! i) \<noteq> code then
             let s2 = s1\<lparr>elog_array := (elog_array s1)[i :=
                          (elog_array s1 ! i)\<lparr>elog_code := code, elog_updated := True\<rparr>]\<rparr>;
                 event_id = elog_event_id component code;
                 st = env_UtilityLogWriteELog env (trace s2) event_id;
                 s3 = emit (ESF (Call_UtilityLogWriteELog event_id)) s2;
                 ret = (if st \<noteq> kUtilityLogStatusOk then - ENOENT else 0);
                 s4 = s3\<lparr>elog_array := (elog_array s3)[i :=
                          (elog_array s3 ! i)\<lparr>elog_updated := False\<rparr>]\<rparr>
             in (ret, elog_unlock s4)
           else (0, elog_unlock s1)))"

definition SystemGetELog :: "u8 \<Rightarrow> 's log_state_scheme \<Rightarrow> u8 \<times> 's log_state_scheme" where
  "SystemGetELog component s =
     (let s1 = elog_lock s;
          code = (case component_to_entry s1 component of
                    Some i \<Rightarrow> elog_code (elog_array s1 ! i)
                  | None \<Rightarrow> ELOG_ERR)
      in (code, elog_unlock s1))"

section \<open>SystemDlog\<close>

text \<open>Priorities of \<open>syslog.h\<close>.\<close>

definition LOG_ERR :: int where "LOG_ERR = 3"
definition LOG_WARNING :: int where "LOG_WARNING = 4"
definition LOG_INFO :: int where "LOG_INFO = 6"
definition LOG_DEBUG :: int where "LOG_DEBUG = 7"

definition SystemDlog_level :: "int \<Rightarrow> string \<times> dlog_level" where
  "SystemDlog_level priority =
     (if priority = LOG_ERR then (''ERROR'', kUtilityLogDlogLevelError)
      else if priority = LOG_WARNING then (''WARNING'', kUtilityLogDlogLevelWarn)
      else if priority = LOG_INFO then (''INFO'', kUtilityLogDlogLevelInfo)
      else if priority = LOG_DEBUG then (''DEBUG'', kUtilityLogDlogLevelDebug)
      else (''CRITICAL'', kUtilityLogDlogLevelCritical))"

text \<open>
  The text goes to a heap block of 4096 bytes, or to a stack buffer of 128 when there is no
  memory. Printing a text whose conversion failed would read an uninitialised buffer.
\<close>

definition SystemDlog ::
  "'e libc_env_scheme \<Rightarrow> int \<Rightarrow> string \<Rightarrow> string \<Rightarrow> int \<Rightarrow> string \<Rightarrow> fmt_arg list \<Rightarrow>
   's log_state_scheme \<Rightarrow> 's log_state_scheme" where
  "SystemDlog env priority tag file line fmt args s =
     (let (max_logstr, s1) = c_malloc env Alloc_max_logstr s;
          log_len = (if max_logstr \<noteq> None then MAX_LOG_STR_LEN else MIN_LOG_STR_LEN);
          logstr = vsnprintf_text log_len fmt args;
          s2 = (if c_format fmt args = None then undefined_behaviour s1 else s1);
          (log_level_str, log_level) = SystemDlog_level priority;
          s3 = emit (ESF (Call_UtilityLogWriteDLog log_level (''[%s] %s-%d: %s'' @ [CHR 0x0A])
                 [FStr log_level_str, FStr file, FInt line, FStr logstr])) s2
      in c_free max_logstr s3)"

section \<open>The log handler of the agent library\<close>

definition dlog_handler_level :: "int \<Rightarrow> dlog_level" where
  "dlog_handler_level lvl =
     (if lvl = 0 then kUtilityLogDlogLevelTrace
      else if lvl = 1 then kUtilityLogDlogLevelDebug
      else if lvl = 2 then kUtilityLogDlogLevelInfo
      else if lvl = 3 then kUtilityLogDlogLevelWarn
      else if lvl = 4 then kUtilityLogDlogLevelError
      else kUtilityLogDlogLevelCritical)"

definition dlog_chunk_call :: "dlog_level \<Rightarrow> string \<Rightarrow> int \<Rightarrow> string \<Rightarrow> nat \<Rightarrow> nat \<Rightarrow> ext_call" where
  "dlog_chunk_call log_level filename line buf i chunk_len =
     ESF (Call_UtilityLogWriteDLog log_level ''[%s:%d] %.*s''
       [FStr filename, FInt line, FInt (int chunk_len), FStr (drop i buf)])"

function dlog_chunks ::
  "dlog_level \<Rightarrow> string \<Rightarrow> int \<Rightarrow> string \<Rightarrow> nat \<Rightarrow> 's log_state_scheme \<Rightarrow> 's log_state_scheme" where
  "dlog_chunks log_level filename line buf i s =
     (if i < length buf then
        let remaining = length buf - i;
            chunk_len = (if remaining > LOG_CHUNK_SIZE then LOG_CHUNK_SIZE else remaining)
        in dlog_chunks log_level filename line buf (i + LOG_CHUNK_SIZE)
             (emit (dlog_chunk_call log_level filename line buf i chunk_len) s)
      else s)"
  by pat_completeness auto
termination
  by (relation "measure (\<lambda>(_, _, _, buf, i, _). length buf - i)") (auto simp: LOG_CHUNK_SIZE_def)

declare dlog_chunks.simps [simp del]

definition dlog_truncated_call :: "dlog_level \<Rightarrow> string \<Rightarrow> int \<Rightarrow> int \<Rightarrow> ext_call" where
  "dlog_truncated_call log_level filename line total_len =
     ESF (Call_UtilityLogWriteDLog log_level
       (''[%s:%d] Log message truncated: message size %d bytes, buffer size '' @
        ''%d bytes, truncated %d bytes'')
       [FStr filename, FInt line, FInt total_len, FInt LOG_BUFFER_SIZE,
        FInt (total_len - LOG_BUFFER_SIZE)])"

definition evp_agent_dlog_handler ::
  "'e libc_env_scheme \<Rightarrow> int \<Rightarrow> string \<Rightarrow> int \<Rightarrow> string \<Rightarrow> fmt_arg list \<Rightarrow>
   's log_state_scheme \<Rightarrow> 's log_state_scheme" where
  "evp_agent_dlog_handler env lvl file line fmt ap s =
     (let log_level = dlog_handler_level lvl;
          filename = EVP_FILE_NAME file;
          prefix_len = vsnprintf_ret ''[%s:%d] '' [FStr filename, FInt line];
          message_len = vsnprintf_ret fmt ap
      in if prefix_len < 0 \<or> message_len < 0 then
           emit (EVP_AGENT_ERR ''log.c'' 214 ''Log formatting error (vsnprintf failed)'' []) s
         else if prefix_len + message_len + 1 > INT_MAX then undefined_behaviour s
         else
           let total_len = prefix_len + message_len + 1;
               log_truncated = (total_len > LOG_BUFFER_SIZE);
               buffer_size = (if total_len > LOG_BUFFER_SIZE then LOG_BUFFER_SIZE else total_len);
               (buf, s1) = c_malloc env (Alloc_log_buf (nat buffer_size)) s
           in if buf = None then
                emit (EVP_AGENT_ERR ''log.c'' 232 ''Memory allocation failed'' []) s1
              else if vsnprintf_ret fmt ap < 0 then
                c_free buf (emit (EVP_AGENT_ERR ''log.c'' 238
                  ''Log formatting error (vsnprintf failed)'' []) s1)
              else
                let text = cstr (vsnprintf_text (nat buffer_size) fmt ap);
                    s2 = dlog_chunks log_level filename line text 0 s1;
                    s3 = (if log_truncated
                          then emit (dlog_truncated_call log_level filename line total_len) s2
                          else s2)
                in c_free buf s3)"

section \<open>The table as a map\<close>

definition elog_wf :: "'s log_state_scheme \<Rightarrow> bool" where
  "elog_wf s \<longleftrightarrow> length (elog_array s) = MAX_ELOG_ENTRY \<and>
     0 \<le> elog_last s \<and> elog_last s \<le> int MAX_ELOG_ENTRY \<and>
     (\<forall>e \<in> set (elog_array s). \<not> elog_updated e)"

definition elog_full :: "'s log_state_scheme \<Rightarrow> bool" where
  "elog_full s \<longleftrightarrow> elog_last s \<ge> int MAX_ELOG_ENTRY"

definition elog_alist :: "elog_entry list \<Rightarrow> int \<Rightarrow> (u8 \<times> u8) list" where
  "elog_alist arr n = map (\<lambda>e. (elog_component e, elog_code e)) (take (nat n) arr)"

definition elog_map :: "'s log_state_scheme \<Rightarrow> u8 \<rightharpoonup> u8" where
  "elog_map s = map_of (elog_alist (elog_array s) (elog_last s))"

lemma map_of_update_first:
  assumes "i < length xs" "fst (xs ! i) = k" "\<forall>j < i. fst (xs ! j) \<noteq> k"
  shows "map_of (xs[i := (k, v)]) = (map_of xs)(k \<mapsto> v)"
  using assms
proof (induction xs arbitrary: i)
  case Nil
  then show ?case by simp
next
  case (Cons x xs)
  show ?case
  proof (cases i)
    case 0
    with Cons.prems show ?thesis by (cases x) auto
  next
    case (Suc j)
    with Cons.prems have "fst x \<noteq> k" by auto
    moreover from Suc Cons.prems have "map_of (xs[j := (k, v)]) = (map_of xs)(k \<mapsto> v)"
      by (intro Cons.IH) auto
    ultimately show ?thesis using Suc by (cases x) (auto simp: fun_upd_twist)
  qed
qed

lemma map_of_first:
  assumes "i < length xs" "fst (xs ! i) = k" "\<forall>j < i. fst (xs ! j) \<noteq> k"
  shows "map_of xs k = Some (snd (xs ! i))"
  using map_of_update_first [OF assms, of "snd (xs ! i)"] assms
  by (metis fun_upd_same list_update_id prod.collapse)

text \<open>The search loop returns the first index that holds the component.\<close>

lemma component_to_entry_loop_Some:
  "component_to_entry_loop arr n c i = Some k \<Longrightarrow>
     i \<le> k \<and> int k < n \<and> elog_component (arr ! k) = c \<and>
     (\<forall>j. i \<le> j \<and> j < k \<longrightarrow> elog_component (arr ! j) \<noteq> c)"
proof (induction arr n c i rule: component_to_entry_loop.induct)
  case (1 arr n c i)
  show ?case
  proof (cases "int i < n \<and> elog_component (arr ! i) \<noteq> c")
    case True
    with "1.prems" have "component_to_entry_loop arr n c (Suc i) = Some k"
      by (subst (asm) component_to_entry_loop.simps) simp
    with True "1.IH" show ?thesis by (metis Suc_leD le_antisym not_less_eq_eq)
  next
    case False
    with "1.prems" show ?thesis
      by (subst (asm) component_to_entry_loop.simps) (auto split: if_splits)
  qed
qed

lemma component_to_entry_loop_None:
  "component_to_entry_loop arr n c i = None \<longleftrightarrow>
     (\<forall>j. i \<le> j \<and> int j < n \<longrightarrow> elog_component (arr ! j) \<noteq> c)"
proof (induction arr n c i rule: component_to_entry_loop.induct)
  case (1 arr n c i)
  show ?case
  proof (cases "int i < n \<and> elog_component (arr ! i) \<noteq> c")
    case True
    then have "component_to_entry_loop arr n c i = component_to_entry_loop arr n c (Suc i)"
      by (subst component_to_entry_loop.simps) simp
    with True "1.IH" show ?thesis by (metis Suc_leD Suc_leI le_neq_implies_less)
  next
    case False
    then show ?thesis by (subst component_to_entry_loop.simps) auto
  qed
qed

lemma component_to_entry_map:
  assumes "elog_wf s"
  shows "elog_map s c = map_option (\<lambda>i. elog_code (elog_array s ! i)) (component_to_entry s c)"
    and "component_to_entry s c = Some i \<Longrightarrow>
      i < length (elog_array s) \<and> i < nat (elog_last s) \<and> elog_component (elog_array s ! i) = c \<and>
      (\<forall>j < i. elog_component (elog_array s ! j) \<noteq> c)"
proof -
  let ?xs = "elog_alist (elog_array s) (elog_last s)"
  have size: "ELOG_ARRAY_SIZE (elog_last s) = elog_last s"
    and len: "length ?xs = nat (elog_last s)" "nat (elog_last s) \<le> length (elog_array s)"
    using assms by (auto simp: ELOG_ARRAY_SIZE_def elog_wf_def elog_alist_def)
  have nth: "\<And>j. j < nat (elog_last s) \<Longrightarrow>
      ?xs ! j = (elog_component (elog_array s ! j), elog_code (elog_array s ! j))"
    using len by (simp add: elog_alist_def)
  show idx: "component_to_entry s c = Some i \<Longrightarrow>
      i < length (elog_array s) \<and> i < nat (elog_last s) \<and> elog_component (elog_array s ! i) = c \<and>
      (\<forall>j < i. elog_component (elog_array s ! j) \<noteq> c)" for i
    using component_to_entry_loop_Some [of "elog_array s" "elog_last s" c 0 i] len
    by (auto simp: component_to_entry_def size)
  show "elog_map s c = map_option (\<lambda>i. elog_code (elog_array s ! i)) (component_to_entry s c)"
  proof (cases "component_to_entry s c")
    case None
    then have "\<forall>j < length ?xs. fst (?xs ! j) \<noteq> c"
      using component_to_entry_loop_None [of "elog_array s" "elog_last s" c 0] nth len
      by (auto simp: component_to_entry_def size)
    then have "map_of ?xs c = None"
      by (fastforce simp: map_of_eq_None_iff in_set_conv_nth)
    with None show ?thesis by (simp add: elog_map_def)
  next
    case (Some i)
    from idx [OF Some] nth len map_of_first [of i ?xs c] Some show ?thesis
      by (auto simp: elog_map_def)
  qed
qed

section \<open>What each operation does\<close>

lemma log_lock_simps [simp]:
  "trace (elog_lock s) = trace s @ [OS (Call_mutex_lock elog_entry_mutex)]"
  "trace (elog_unlock s) = trace s @ [OS (Call_mutex_unlock elog_entry_mutex)]"
  "elog_array (elog_lock s) = elog_array s" "elog_array (elog_unlock s) = elog_array s"
  "elog_last (elog_lock s) = elog_last s" "elog_last (elog_unlock s) = elog_last s"
  by (simp_all add: elog_lock_def elog_unlock_def mutex_lock_def mutex_unlock_def emit_def)

text \<open>Reading a code changes nothing but the history.\<close>

lemma SystemGetELog_eq:
  assumes "elog_wf s"
  shows "SystemGetELog c s =
    (case elog_map s c of Some v \<Rightarrow> v | None \<Rightarrow> ELOG_ERR,
     s\<lparr>trace := trace s @ [OS (Call_mutex_lock elog_entry_mutex),
                          OS (Call_mutex_unlock elog_entry_mutex)]\<rparr>)"
proof -
  have "component_to_entry (elog_lock s) c = component_to_entry s c"
    by (simp add: component_to_entry_def)
  then show ?thesis
    using component_to_entry_map(1) [OF assms, of c]
    by (auto simp: SystemGetELog_def Let_def elog_lock_def elog_unlock_def mutex_lock_def
        mutex_unlock_def emit_def split: option.splits)
qed

text \<open>
  Writing a code: the value returned, the calls made and the array left behind. The event
  log is written exactly when the component is registered and its code changes.
\<close>

definition elog_set_ret :: "'e log_env_scheme \<Rightarrow> u8 \<Rightarrow> u8 \<Rightarrow> 's log_state_scheme \<Rightarrow> int" where
  "elog_set_ret env c v s =
     (case elog_map s c of
        None \<Rightarrow> - ENOENT
      | Some w \<Rightarrow>
          if w \<noteq> v \<and> env_UtilityLogWriteELog env
               (trace s @ [OS (Call_mutex_lock elog_entry_mutex)]) (elog_event_id c v)
               \<noteq> kUtilityLogStatusOk
          then - ENOENT else 0)"

definition elog_set_calls :: "u8 \<Rightarrow> u8 \<Rightarrow> 's log_state_scheme \<Rightarrow> history" where
  "elog_set_calls c v s =
     OS (Call_mutex_lock elog_entry_mutex) #
     (if elog_map s c \<in> {None, Some v} then []
      else [ESF (Call_UtilityLogWriteELog (elog_event_id c v))]) @
     [OS (Call_mutex_unlock elog_entry_mutex)]"

definition elog_set_array :: "u8 \<Rightarrow> u8 \<Rightarrow> 's log_state_scheme \<Rightarrow> elog_entry list" where
  "elog_set_array c v s =
     (case component_to_entry s c of
        None \<Rightarrow> elog_array s
      | Some i \<Rightarrow> (elog_array s)[i := (elog_array s ! i)\<lparr>elog_code := v\<rparr>])"

lemma elog_entry_same:
  "elog_code e = v \<Longrightarrow> e\<lparr>elog_code := v\<rparr> = e"
  "\<not> elog_updated e \<Longrightarrow> e\<lparr>elog_code := v, elog_updated := False\<rparr> = e\<lparr>elog_code := v\<rparr>"
  by (cases e; simp)+

lemma elog_set_array_same:
  assumes "elog_map s c = Some v" "elog_wf s"
  shows "elog_set_array c v s = elog_array s"
proof -
  obtain i where i: "component_to_entry s c = Some i" "elog_code (elog_array s ! i) = v"
    using assms component_to_entry_map(1) [OF assms(2), of c] by auto
  then show ?thesis by (simp add: elog_set_array_def elog_entry_same)
qed

lemma SystemSetELog_eq:
  assumes "elog_wf s"
  shows "SystemSetELog env c v s =
    (elog_set_ret env c v s,
     s\<lparr>trace := trace s @ elog_set_calls c v s, elog_array := elog_set_array c v s\<rparr>)"
proof (cases "component_to_entry s c")
  case None
  then have "elog_map s c = None" "component_to_entry (elog_lock s) c = None"
    using component_to_entry_map(1) [OF assms, of c] by (simp_all add: component_to_entry_def)
  with None show ?thesis
    by (simp add: SystemSetELog_def Let_def elog_set_ret_def elog_set_calls_def elog_set_array_def)
      (simp add: elog_lock_def elog_unlock_def mutex_lock_def mutex_unlock_def emit_def)
next
  case (Some i)
  then have m: "elog_map s c = Some (elog_code (elog_array s ! i))"
    and l: "component_to_entry (elog_lock s) c = Some i"
    using component_to_entry_map(1) [OF assms, of c] by (simp_all add: component_to_entry_def)
  have i: "i < length (elog_array s)"
    using component_to_entry_map(2) [OF assms Some] by simp
  then have u: "\<not> elog_updated (elog_array s ! i)"
    using assms by (simp add: elog_wf_def)
  show ?thesis
  proof (cases "elog_code (elog_array s ! i) = v")
    case True
    with m have "elog_map s c = Some v" by simp
    from elog_set_array_same [OF this assms] True l m show ?thesis
      by (simp add: SystemSetELog_def Let_def elog_set_ret_def elog_set_calls_def)
        (simp add: elog_lock_def elog_unlock_def mutex_lock_def mutex_unlock_def emit_def)
  next
    case False
    with l m Some i u show ?thesis
      by (simp add: SystemSetELog_def Let_def elog_set_ret_def elog_set_calls_def
          elog_set_array_def elog_entry_same elog_lock_def elog_unlock_def mutex_lock_def
          mutex_unlock_def emit_def)
  qed
qed

lemma SystemRegElog_eq:
  "SystemRegElog c v m s =
     (if elog_full s then
        s\<lparr>trace := trace s @ [OS (Call_mutex_lock elog_entry_mutex),
            EVP_AGENT_WARN ''log.c'' 127 ''Elog array is full. Cannot register component: 0x%x''
              [FInt (uint c)], OS (Call_mutex_unlock elog_entry_mutex)]\<rparr>
      else
        s\<lparr>trace := trace s @ [OS (Call_mutex_lock elog_entry_mutex),
            OS (Call_mutex_unlock elog_entry_mutex)],
          elog_array := (elog_array s)[nat (elog_last s) := \<lparr>elog_component = c, elog_code = v,
            elog_updated = False, elog_msg = Some m\<rparr>],
          elog_last := elog_last s + 1\<rparr>)"
  by (simp add: SystemRegElog_def Let_def elog_full_def elog_lock_def elog_unlock_def
      mutex_lock_def mutex_unlock_def emit_def)

section \<open>The operations implement the map\<close>

text \<open>Free slots of the table; a registration uses one up even for a known component.\<close>

definition elog_slots :: "'s log_state_scheme \<Rightarrow> nat" where
  "elog_slots s = nat (int MAX_ELOG_ENTRY - elog_last s)"

lemma elog_trace_irrelevant [simp]:
  "elog_map (s\<lparr>trace := tr\<rparr>) = elog_map s" "elog_wf (s\<lparr>trace := tr\<rparr>) = elog_wf s"
  "elog_slots (s\<lparr>trace := tr\<rparr>) = elog_slots s" "elog_full (s\<lparr>trace := tr\<rparr>) = elog_full s"
  by (simp_all add: elog_map_def elog_wf_def elog_slots_def elog_full_def)

lemma elog_set_array_wf:
  assumes "elog_wf s"
  shows "elog_wf (s\<lparr>trace := tr, elog_array := elog_set_array c v s\<rparr>)"
proof -
  have "\<forall>e \<in> set (elog_set_array c v s). \<not> elog_updated e"
    using assms component_to_entry_map(2) [OF assms, of c]
    by (auto simp: elog_wf_def elog_set_array_def split: option.splits
        dest!: set_update_subset_insert [THEN subsetD])
  with assms show ?thesis
    by (auto simp: elog_wf_def elog_set_array_def split: option.splits)
qed

lemma elog_map_set_array:
  assumes "elog_wf s"
  shows "elog_map (s\<lparr>trace := tr, elog_array := elog_set_array c v s\<rparr>) =
    (if elog_map s c = None then elog_map s else (elog_map s)(c \<mapsto> v))"
proof (cases "component_to_entry s c")
  case None
  then show ?thesis
    using component_to_entry_map(1) [OF assms, of c]
    by (simp add: elog_map_def elog_set_array_def)
next
  case (Some i)
  let ?xs = "elog_alist (elog_array s) (elog_last s)"
  note idx = component_to_entry_map(2) [OF assms Some]
  have len: "nat (elog_last s) \<le> length (elog_array s)"
    using assms by (auto simp: elog_wf_def)
  have "elog_alist (elog_set_array c v s) (elog_last s) = ?xs[i := (c, v)]"
    using Some idx by (simp add: elog_alist_def elog_set_array_def take_update_swap map_update)
  moreover have "map_of (?xs[i := (c, v)]) = (map_of ?xs)(c \<mapsto> v)"
    using idx len by (intro map_of_update_first) (auto simp: elog_alist_def)
  ultimately show ?thesis
    using component_to_entry_map(1) [OF assms, of c] Some by (simp add: elog_map_def)
qed

lemma elog_map_reg:
  assumes "elog_wf s" "\<not> elog_full s"
  shows "elog_map (s\<lparr>trace := tr, elog_array := (elog_array s)[nat (elog_last s) :=
      \<lparr>elog_component = c, elog_code = v, elog_updated = False, elog_msg = m\<rparr>],
      elog_last := elog_last s + 1\<rparr>) =
    (if elog_map s c = None then (elog_map s)(c \<mapsto> v) else elog_map s)"
proof -
  let ?xs = "elog_alist (elog_array s) (elog_last s)"
  let ?e = "\<lparr>elog_component = c, elog_code = v, elog_updated = False, elog_msg = m\<rparr>"
  have last: "nat (elog_last s) < length (elog_array s)" "0 \<le> elog_last s"
    using assms by (auto simp: elog_wf_def elog_full_def)
  then have "take (nat (elog_last s + 1)) ((elog_array s)[nat (elog_last s) := ?e]) =
      take (nat (elog_last s)) (elog_array s) @ [?e]"
    by (simp add: nat_add_distrib take_Suc_conv_app_nth)
  then have "elog_alist ((elog_array s)[nat (elog_last s) := ?e]) (elog_last s + 1) = ?xs @ [(c, v)]"
    by (simp add: elog_alist_def)
  then show ?thesis
    by (auto simp: elog_map_def map_add_def fun_eq_iff split: option.splits)
qed

lemma elog_wf_reg:
  assumes "elog_wf s" "\<not> elog_full s"
  shows "elog_wf (s\<lparr>trace := tr, elog_array := (elog_array s)[nat (elog_last s) :=
      \<lparr>elog_component = c, elog_code = v, elog_updated = False, elog_msg = m\<rparr>],
      elog_last := elog_last s + 1\<rparr>)"
  using assms set_update_subset_insert [of "elog_array s" "nat (elog_last s)"]
  by (fastforce simp: elog_wf_def elog_full_def)

section \<open>The contract the notification handlers rely on\<close>

text \<open>
  What a client of the table may assume: a read returns the code of a registered component
  and \<open>ELOG_ERR\<close> otherwise, a write replaces the code of a registered component only, and a
  registration adds a component that is new while there is a free slot.
\<close>

locale elog_store =
  fixes codes :: "'s \<Rightarrow> u8 \<rightharpoonup> u8"
    and wf :: "'s \<Rightarrow> bool"
    and slots :: "'s \<Rightarrow> nat"
    and get :: "u8 \<Rightarrow> 's \<Rightarrow> u8 \<times> 's"
    and put :: "u8 \<Rightarrow> u8 \<Rightarrow> 's \<Rightarrow> int \<times> 's"
    and reg :: "u8 \<Rightarrow> u8 \<Rightarrow> 's \<Rightarrow> 's"
  assumes get_value: "wf s \<Longrightarrow> fst (get c s) = (case codes s c of Some v \<Rightarrow> v | None \<Rightarrow> ELOG_ERR)"
    and get_codes: "wf s \<Longrightarrow> codes (snd (get c s)) = codes s"
    and get_slots: "wf s \<Longrightarrow> slots (snd (get c s)) = slots s"
    and get_wf: "wf s \<Longrightarrow> wf (snd (get c s))"
    and put_codes: "wf s \<Longrightarrow> codes (snd (put c v s)) =
          (if codes s c = None then codes s else (codes s)(c \<mapsto> v))"
    and put_missing: "wf s \<Longrightarrow> codes s c = None \<Longrightarrow> fst (put c v s) = - ENOENT"
    and put_same: "wf s \<Longrightarrow> codes s c = Some v \<Longrightarrow> fst (put c v s) = 0"
    and put_slots: "wf s \<Longrightarrow> slots (snd (put c v s)) = slots s"
    and put_wf: "wf s \<Longrightarrow> wf (snd (put c v s))"
    and reg_codes: "wf s \<Longrightarrow> codes (reg c v s) =
          (if slots s = 0 \<or> codes s c \<noteq> None then codes s else (codes s)(c \<mapsto> v))"
    and reg_slots: "wf s \<Longrightarrow> slots (reg c v s) = slots s - 1"
    and reg_wf: "wf s \<Longrightarrow> wf (reg c v s)"
begin

lemmas store_laws =
  get_value get_codes get_slots get_wf put_codes put_missing put_same put_slots put_wf
  reg_codes reg_slots reg_wf

lemma get_after_put:
  "wf s \<Longrightarrow> codes s c \<noteq> None \<Longrightarrow> fst (get c (snd (put c v s))) = v"
  by (auto simp: store_laws)

lemma get_after_put_other:
  "wf s \<Longrightarrow> d \<noteq> c \<Longrightarrow> fst (get d (snd (put c v s))) = fst (get d s)"
  by (simp add: store_laws)

lemma get_after_reg:
  "wf s \<Longrightarrow> codes s c = None \<Longrightarrow> 0 < slots s \<Longrightarrow> fst (get c (reg c v s)) = v"
  by (simp add: store_laws)

text \<open>The handlers' idiom: read a code, compute a new one, write it back.\<close>

lemma read_modify_write:
  assumes "wf s" "codes s c = Some w"
  shows "codes (snd (put c (f (fst (get c s))) (snd (get c s)))) = (codes s)(c \<mapsto> f w)"
    and "wf (snd (put c (f (fst (get c s))) (snd (get c s))))"
  using assms by (simp_all add: store_laws)

end

interpretation elog: elog_store elog_map elog_wf elog_slots SystemGetELog
  "SystemSetELog env" "\<lambda>c v. SystemRegElog c v m" for env m
proof unfold_locales
  fix s :: "'a log_state_scheme" and c v :: u8
  assume wf: "elog_wf s"
  have full: "elog_slots s = 0 \<longleftrightarrow> elog_full s"
    by (auto simp: elog_slots_def elog_full_def)
  show "fst (SystemGetELog c s) = (case elog_map s c of Some v \<Rightarrow> v | None \<Rightarrow> ELOG_ERR)"
    "elog_map (snd (SystemGetELog c s)) = elog_map s"
    "elog_slots (snd (SystemGetELog c s)) = elog_slots s"
    "elog_wf (snd (SystemGetELog c s))"
    using wf by (simp_all add: SystemGetELog_eq)
  show "elog_map (snd (SystemSetELog env c v s)) =
      (if elog_map s c = None then elog_map s else (elog_map s)(c \<mapsto> v))"
    using wf by (simp add: SystemSetELog_eq elog_map_set_array)
  show "elog_slots (snd (SystemSetELog env c v s)) = elog_slots s"
    using wf by (simp add: SystemSetELog_eq elog_slots_def)
  show "elog_wf (snd (SystemSetELog env c v s))"
    using wf by (simp add: SystemSetELog_eq elog_set_array_wf)
  show "elog_map s c = None \<Longrightarrow> fst (SystemSetELog env c v s) = - ENOENT"
    "elog_map s c = Some v \<Longrightarrow> fst (SystemSetELog env c v s) = 0"
    using wf by (simp_all add: SystemSetELog_eq elog_set_ret_def)
  show "elog_map (SystemRegElog c v m s) =
      (if elog_slots s = 0 \<or> elog_map s c \<noteq> None then elog_map s else (elog_map s)(c \<mapsto> v))"
    using wf full by (auto simp: SystemRegElog_eq elog_map_reg)
  show "elog_slots (SystemRegElog c v m s) = elog_slots s - 1"
    using full by (auto simp: SystemRegElog_eq elog_slots_def)
  show "elog_wf (SystemRegElog c v m s)"
    using wf by (simp add: SystemRegElog_eq elog_wf_reg)
qed

section \<open>Runs of table operations\<close>

datatype elog_op = Op_get u8 | Op_set u8 u8 | Op_reg u8 u8 string

fun elog_exec :: "'e log_env_scheme \<Rightarrow> elog_op \<Rightarrow> 's log_state_scheme \<Rightarrow> 's log_state_scheme" where
  "elog_exec env (Op_get c) s = snd (SystemGetELog c s)"
| "elog_exec env (Op_set c v) s = snd (SystemSetELog env c v s)"
| "elog_exec env (Op_reg c v m) s = SystemRegElog c v m s"

definition elog_run :: "'e log_env_scheme \<Rightarrow> elog_op list \<Rightarrow> 's log_state_scheme \<Rightarrow> 's log_state_scheme" where
  "elog_run env ops s = fold (elog_exec env) ops s"

text \<open>The specification: a finite map and a number of free slots.\<close>

fun elog_spec_step :: "elog_op \<Rightarrow> (u8 \<rightharpoonup> u8) \<times> nat \<Rightarrow> (u8 \<rightharpoonup> u8) \<times> nat" where
  "elog_spec_step (Op_get c) (m, n) = (m, n)"
| "elog_spec_step (Op_set c v) (m, n) = (if c \<in> dom m then m(c \<mapsto> v) else m, n)"
| "elog_spec_step (Op_reg c v msg) (m, n) =
     (if n = 0 \<or> c \<in> dom m then m else m(c \<mapsto> v), n - 1)"

definition elog_abs :: "'s log_state_scheme \<Rightarrow> (u8 \<rightharpoonup> u8) \<times> nat" where
  "elog_abs s = (elog_map s, elog_slots s)"

lemma elog_exec_wf: "elog_wf s \<Longrightarrow> elog_wf (elog_exec env op s)"
  by (cases op) (simp_all add: elog.store_laws)

lemma elog_exec_refines: "elog_wf s \<Longrightarrow> elog_abs (elog_exec env op s) = elog_spec_step op (elog_abs s)"
  by (cases op) (auto simp: elog_abs_def elog.store_laws)

text \<open>The codes of one component that a history reports to the event log, in order.\<close>

fun elog_reports :: "u8 \<Rightarrow> history \<Rightarrow> u8 list" where
  "elog_reports c [] = []"
| "elog_reports c (ESF (Call_UtilityLogWriteELog e) # cs) =
     (if ucast (drop_bit 8 e) = c then ucast e # elog_reports c cs else elog_reports c cs)"
| "elog_reports c (_ # cs) = elog_reports c cs"

lemma elog_reports_append [simp]: "elog_reports c (xs @ ys) = elog_reports c xs @ elog_reports c ys"
  by (induction c xs rule: elog_reports.induct) auto

lemma elog_event_id_decode:
  "ucast (drop_bit 8 (elog_event_id c v)) = c" "ucast (elog_event_id c v) = v"
  unfolding elog_event_id_def
  by (rule bit_word_eqI, auto simp: bit_simps dest: bit_imp_le_length)+

lemma elog_reports_set_calls:
  "elog_reports d (elog_set_calls c v s) = (if d = c \<and> elog_map s c \<notin> {None, Some v} then [v] else [])"
  by (auto simp: elog_set_calls_def elog_event_id_decode)

lemma elog_reports_log_calls [simp]:
  "elog_reports c (EVP_AGENT_WARN f l m a # cs) = elog_reports c cs"
  "elog_reports c (EVP_AGENT_ERR f l m a # cs) = elog_reports c cs"
  "elog_reports c (EVP_AGENT_INFO f l m a # cs) = elog_reports c cs"
  by (simp_all add: EVP_AGENT_WARN_def EVP_AGENT_ERR_def EVP_AGENT_INFO_def)

text \<open>One operation: it extends the history, and for a registered component either keeps the
  code and reports nothing, or reports the new code, which differs from the old one.\<close>

lemma elog_exec_reports:
  assumes "elog_wf s" "elog_map s c = Some w"
  shows "\<exists>cs. trace (elog_exec env op s) = trace s @ cs \<and>
    (elog_reports c cs = [] \<and> elog_map (elog_exec env op s) c = Some w \<or>
     (\<exists>v. v \<noteq> w \<and> elog_reports c cs = [v] \<and> elog_map (elog_exec env op s) c = Some v))"
proof (cases op)
  case (Op_get d)
  with assms show ?thesis by (simp add: SystemGetELog_eq)
next
  case (Op_set d v)
  with assms show ?thesis
    by (auto simp: SystemSetELog_eq elog_reports_set_calls elog_map_set_array)
next
  case (Op_reg d v m)
  with assms show ?thesis by (auto simp: SystemRegElog_eq elog_map_reg)
qed

lemma elog_run_reports:
  assumes "elog_wf s" "elog_map s c = Some w"
  shows "\<exists>cs. trace (elog_run env ops s) = trace s @ cs \<and>
    distinct_adj (w # elog_reports c cs) \<and>
    elog_map (elog_run env ops s) c = Some (last (w # elog_reports c cs))"
  using assms
proof (induction ops arbitrary: s w)
  case Nil
  then show ?case by (simp add: elog_run_def)
next
  case (Cons op ops)
  let ?s = "elog_exec env op s"
  obtain cs where cs: "trace ?s = trace s @ cs" and
    step: "elog_reports c cs = [] \<and> elog_map ?s c = Some w \<or>
      (\<exists>v. v \<noteq> w \<and> elog_reports c cs = [v] \<and> elog_map ?s c = Some v)"
    using elog_exec_reports [OF Cons.prems] by blast
  from step obtain v where v: "elog_map ?s c = Some v" by blast
  from Cons.IH [OF elog_exec_wf [OF Cons.prems(1)] v] obtain ds where
    ds: "trace (elog_run env ops ?s) = trace ?s @ ds" "distinct_adj (v # elog_reports c ds)"
      "elog_map (elog_run env ops ?s) c = Some (last (v # elog_reports c ds))"
    by blast
  have "distinct_adj (w # elog_reports c (cs @ ds)) \<and>
      last (w # elog_reports c (cs @ ds)) = last (v # elog_reports c ds)"
    using step v ds(2) by auto
  with cs ds show ?case by (intro exI [of _ "cs @ ds"]) (simp add: elog_run_def)
qed

section \<open>Lock discipline of the log component\<close>

lemma lock_call_simps [simp]:
  "\<not> lock_call (ESF e)" "\<not> lock_call (EVP v)"
  "\<not> lock_call (EVP_AGENT_WARN f l m a)" "\<not> lock_call (EVP_AGENT_ERR f l m a)"
  "\<not> lock_call (EVP_AGENT_INFO f l m a)"
  by (simp_all add: lock_call_def EVP_AGENT_WARN_def EVP_AGENT_ERR_def EVP_AGENT_INFO_def)

lemma neutral_log_calls [simp]:
  "neutral (EVP_AGENT_WARN f l m a)" "neutral (EVP_AGENT_ERR f l m a)"
  "neutral (EVP_AGENT_INFO f l m a)"
  by (simp_all add: EVP_AGENT_WARN_def EVP_AGENT_ERR_def EVP_AGENT_INFO_def)

lemma allocs_log_fields:
  assumes "allocs P B s t"
  shows "elog_array t = elog_array s" "elog_last t = elog_last s" "elog_map t = elog_map s"
    "elog_wf t = elog_wf s" "elog_slots t = elog_slots s"
  using assms by (auto elim!: allocsE simp: elog_map_def elog_wf_def elog_slots_def)

lemma neutral_reports: "list_all neutral cs \<Longrightarrow> elog_reports c cs = []"
  by (induction c cs rule: elog_reports.induct) auto

lemma SystemDlog_quiet:
  assumes "heap_wf s" "c_format fmt args \<noteq> None"
  shows "quiet neutral s (SystemDlog env priority tag file line fmt args s)"
proof -
  obtain p s1 where m: "c_malloc env Alloc_max_logstr s = (p, s1)" by (cases "c_malloc env Alloc_max_logstr s")
  obtain str lvl where l: "SystemDlog_level priority = (str, lvl)" by (cases "SystemDlog_level priority")
  have a: "allocs neutral (set_option p) s s1" using m by (rule allocs_malloc) simp
  have "quiet neutral s (c_free p (emit c s1))" if "neutral c" for c
    using that by (intro allocs_free_all allocs_emit [OF a] assms(1)) simp_all
  moreover have "\<exists>c. neutral c \<and>
      SystemDlog env priority tag file line fmt args s = c_free p (emit c s1)"
  proof -
    obtain y where "c_format fmt args = Some y" using assms(2) by blast
    then show ?thesis
      by (intro exI [of _ "ESF (Call_UtilityLogWriteDLog lvl (''[%s] %s-%d: %s'' @ [CHR 0x0A])
            [FStr str, FStr file, FInt line, FStr (vsnprintf_text
              (if p \<noteq> None then MAX_LOG_STR_LEN else MIN_LOG_STR_LEN) fmt args)])"])
        (simp add: SystemDlog_def m l Let_def)
  qed
  ultimately show ?thesis by auto
qed

text \<open>One operation is one critical section of the table's mutex.\<close>

definition elog_section :: "history \<Rightarrow> history" where
  "elog_section body = [OS (Call_mutex_lock elog_entry_mutex)] @ body @ [OS (Call_mutex_unlock elog_entry_mutex)]"

lemma elog_exec_section:
  assumes "elog_wf s"
  shows "\<exists>body. trace (elog_exec env op s) = trace s @ elog_section body \<and> (\<forall>c \<in> set body. \<not> lock_call c)"
proof (cases op)
  case (Op_get c)
  with assms show ?thesis
    by (intro exI [of _ "[]"]) (simp add: SystemGetELog_eq elog_section_def)
next
  case (Op_set c v)
  with assms show ?thesis
    by (intro exI [of _ "if elog_map s c \<in> {None, Some v} then []
          else [ESF (Call_UtilityLogWriteELog (elog_event_id c v))]"])
      (simp add: SystemSetELog_eq elog_set_calls_def elog_section_def lock_call_def)
next
  case (Op_reg c v m)
  with assms show ?thesis
    by (intro exI [of _ "if elog_full s then [EVP_AGENT_WARN ''log.c'' 127
          ''Elog array is full. Cannot register component: 0x%x'' [FInt (uint c)]] else []"])
      (simp add: SystemRegElog_eq elog_section_def EVP_AGENT_WARN_def lock_call_def)
qed

lemma elog_section_balanced: "(\<forall>c \<in> set body. \<not> lock_call c) \<Longrightarrow> balanced (elog_section body)"
  using balanced_section by (simp add: elog_section_def)

lemma balanced_set_calls: "balanced (elog_set_calls c v s)"
  unfolding elog_set_calls_def by (rule balanced_section) simp

lemma elog_exec_balanced:
  assumes "elog_wf s"
  shows "\<exists>cs. trace (elog_exec env op s) = trace s @ cs \<and> balanced cs"
  using elog_exec_section [OF assms] elog_section_balanced by blast

section \<open>The chunk loop\<close>

text \<open>The text a chunk call prints after its prefix: the \<open>%.*s\<close> conversion.\<close>

fun chunk_text :: "ext_call \<Rightarrow> string" where
  "chunk_text (ESF (Call_UtilityLogWriteDLog l f [FStr n, FInt i, FInt k, FStr b])) = take (nat k) b"
| "chunk_text _ = []"

function chunk_calls :: "dlog_level \<Rightarrow> string \<Rightarrow> int \<Rightarrow> string \<Rightarrow> nat \<Rightarrow> ext_call list" where
  "chunk_calls lvl filename line buf i =
     (if i < length buf then
        dlog_chunk_call lvl filename line buf i (min LOG_CHUNK_SIZE (length buf - i)) #
        chunk_calls lvl filename line buf (i + LOG_CHUNK_SIZE)
      else [])"
  by pat_completeness auto
termination
  by (relation "measure (\<lambda>(_, _, _, buf, i). length buf - i)") (auto simp: LOG_CHUNK_SIZE_def)

declare chunk_calls.simps [simp del]

lemma dlog_chunks_eq:
  "dlog_chunks lvl filename line buf i s =
     s\<lparr>trace := trace s @ chunk_calls lvl filename line buf i\<rparr>"
proof (induction lvl filename line buf i s rule: dlog_chunks.induct)
  case (1 lvl filename line buf i s)
  show ?case
  proof (cases "i < length buf")
    case True
    with 1 show ?thesis
      by (subst dlog_chunks.simps, subst chunk_calls.simps)
        (simp add: Let_def LOG_CHUNK_SIZE_def emit_def min_def)
  next
    case False
    then show ?thesis by (subst dlog_chunks.simps, subst chunk_calls.simps) simp
  qed
qed

lemma concat_chunk_calls:
  "concat (map chunk_text (chunk_calls lvl filename line buf i)) = drop i buf"
proof (induction lvl filename line buf i rule: chunk_calls.induct)
  case (1 lvl filename line buf i)
  show ?case
  proof (cases "i < length buf")
    case True
    with 1 have "concat (map chunk_text (chunk_calls lvl filename line buf i)) =
        take 256 (drop i buf) @ drop (i + 256) buf"
      by (subst chunk_calls.simps) (simp add: dlog_chunk_call_def LOG_CHUNK_SIZE_def min_def)
    also have "\<dots> = drop i buf"
      by (metis add.commute append_take_drop_id drop_drop)
    finally show ?thesis .
  next
    case False
    then show ?thesis by (subst chunk_calls.simps) simp
  qed
qed

lemma chunk_calls_form:
  "c \<in> set (chunk_calls lvl filename line buf i) \<Longrightarrow>
     \<exists>k n. c = dlog_chunk_call lvl filename line buf k n \<and> 0 < n \<and> n \<le> LOG_CHUNK_SIZE \<and>
       k + n \<le> length buf"
proof (induction lvl filename line buf i rule: chunk_calls.induct)
  case (1 lvl filename line buf i)
  then show ?case
    by (subst (asm) (2) chunk_calls.simps) (fastforce simp: LOG_CHUNK_SIZE_def split: if_splits)
qed

section \<open>The log handler\<close>

definition dlog_prefix :: "string \<Rightarrow> int \<Rightarrow> string" where
  "dlog_prefix file line = ''['' @ EVP_FILE_NAME file @ '':'' @ int_dec line @ ''] ''"

lemma c_format_prefix:
  "c_format ''[%s:%d] '' [FStr (EVP_FILE_NAME file), FInt line] = Some (dlog_prefix file line)"
  by (simp add: directives_def convert_def convert_int_def dlog_prefix_def)

lemma vsnprintf_ret_ok:
  "c_format fmt ap = Some t \<Longrightarrow> int (length t) \<le> INT_MAX \<Longrightarrow>
     vsnprintf_ret fmt ap = int (length t)"
  by (simp add: vsnprintf_ret_def)

definition dlog_total_len :: "string \<Rightarrow> int \<Rightarrow> string \<Rightarrow> int" where
  "dlog_total_len file line msg = int (length (dlog_prefix file line)) + int (length msg) + 1"

definition dlog_buffer_size :: "string \<Rightarrow> int \<Rightarrow> string \<Rightarrow> nat" where
  "dlog_buffer_size file line msg = nat (min LOG_BUFFER_SIZE (dlog_total_len file line msg))"

lemma dlog_buffer_text:
  "take (dlog_buffer_size file line msg - 1) msg = take 4095 msg"
proof -
  have "length msg \<le> dlog_buffer_size file line msg - 1 \<or> dlog_buffer_size file line msg = 4096"
    by (auto simp: dlog_buffer_size_def dlog_total_len_def LOG_BUFFER_SIZE_def min_def)
  moreover have "dlog_buffer_size file line msg \<le> 4096"
    by (simp add: dlog_buffer_size_def LOG_BUFFER_SIZE_def)
  ultimately show ?thesis by auto
qed

lemma evp_agent_dlog_handler_eq:
  assumes fmt: "c_format fmt ap = Some msg" "NUL \<notin> set msg"
    and len: "dlog_total_len file line msg \<le> INT_MAX"
    and mem: "env_malloc env (trace s) (Alloc_log_buf (dlog_buffer_size file line msg))"
  shows "evp_agent_dlog_handler env lvl file line fmt ap s =
    c_free (Some (fresh s))
      (s\<lparr>trace := trace s @ OS (Call_malloc (Alloc_log_buf (dlog_buffer_size file line msg))) #
           chunk_calls (dlog_handler_level lvl) (EVP_FILE_NAME file) line (take 4095 msg) 0 @
           (if dlog_total_len file line msg > LOG_BUFFER_SIZE
            then [dlog_truncated_call (dlog_handler_level lvl) (EVP_FILE_NAME file) line
                    (dlog_total_len file line msg)] else []),
         live := insert (fresh s) (live s), fresh := Suc (fresh s)\<rparr>)"
proof -
  have nul: "NUL \<notin> set (take n msg)" for n
    using fmt(2) by (meson in_set_takeD)
  have r1: "vsnprintf_ret ''[%s:%d] '' [FStr (EVP_FILE_NAME file), FInt line] =
      int (length (dlog_prefix file line))"
    using len by (intro vsnprintf_ret_ok c_format_prefix) (simp add: dlog_total_len_def)
  have r2: "vsnprintf_ret fmt ap = int (length msg)"
    using len by (intro vsnprintf_ret_ok fmt) (simp add: dlog_total_len_def)
  have bs: "(if dlog_total_len file line msg > LOG_BUFFER_SIZE then LOG_BUFFER_SIZE
      else dlog_total_len file line msg) = int (dlog_buffer_size file line msg)"
    by (simp add: dlog_buffer_size_def LOG_BUFFER_SIZE_def dlog_total_len_def min_def)
  have tx: "cstr (vsnprintf_text (dlog_buffer_size file line msg) fmt ap) = take 4095 msg"
    using nul fmt by (simp add: vsnprintf_text_def dlog_buffer_text [unfolded One_nat_def] cstr_id)
  show ?thesis
    using len mem
    by (simp add: evp_agent_dlog_handler_def r1 r2 Let_def c_malloc_def bs tx dlog_chunks_eq
        flip: dlog_total_len_def)
      (auto simp: emit_def intro!: arg_cong [where f = "c_free (Some (fresh s))"])
qed

section \<open>Properties\<close>

text \<open>A state at program start and an environment in which every call succeeds.\<close>

definition log_start :: log_state where
  "log_start = \<lparr>trace = [], live = {}, fresh = 0, ub = False,
     elog_array = elog_array_init, elog_last = 0\<rparr>"

definition log_env_ok :: log_env where
  "log_env_ok = \<lparr>env_malloc = \<lambda>_ _. True, env_uninit = \<lambda>_. NUL, env_errno = \<lambda>_. 0,
     env_UtilityLogWriteELog = \<lambda>_ _. kUtilityLogStatusOk\<rparr>"

lemma log_start_facts:
  "elog_wf log_start" "elog_map log_start = Map.empty" "elog_slots log_start = 128"
  "heap_wf log_start"
  by (simp_all add: log_start_def elog_wf_def elog_array_init_def elog_map_def elog_alist_def
      elog_slots_def heap_wf_def MAX_ELOG_ENTRY_def)

definition log_registered :: log_state where
  "log_registered = SystemRegElog 0xF0 0x40 ''EVP Block Warning.'' log_start"

lemma log_registered_facts:
  "elog_wf log_registered" "elog_map log_registered = [0xF0 \<mapsto> 0x40]"
  by (simp_all add: log_registered_def elog.store_laws log_start_facts)

text \<open>C4. Any sequence of registrations, reads and writes acts on the table as on a finite map
  with 128 slots: a write changes the code of a registered component only, a registration
  adds a component only if it is new and a slot is free (the first registration wins), and
  the table stays well formed.\<close>

theorem elog_run_refines_map:
  assumes "elog_wf s"
  shows "elog_abs (elog_run env ops s) = fold elog_spec_step ops (elog_abs s) \<and>
    elog_wf (elog_run env ops s)"
  using assms
proof (induction ops arbitrary: s)
  case Nil
  then show ?case by (simp add: elog_run_def)
next
  case (Cons op ops)
  then have "elog_wf (elog_exec env op s)" by (simp add: elog_exec_wf)
  from Cons.IH [OF this] show ?case
    by (simp add: elog_run_def elog_exec_refines [OF Cons.prems])
qed

theorem elog_run_refines_map_witness:
  "elog_wf log_registered \<and>
   elog_abs (elog_run log_env_ok [Op_set 0xF0 0x41, Op_set 0xF1 1] log_registered) =
     ([0xF0 \<mapsto> 0x41], 127)"
proof -
  have "elog_abs log_registered = ([0xF0 \<mapsto> 0x40], 127)"
    using log_start_facts log_registered_facts
    by (simp add: elog_abs_def) (simp add: log_registered_def elog.reg_slots)
  then show ?thesis
    using log_registered_facts(1)
      elog_run_refines_map [OF log_registered_facts(1), of log_env_ok "[Op_set 0xF0 0x41, Op_set 0xF1 1]"]
    by simp
qed

text \<open>C16. Whatever operations run, the codes of a registered component that reach the event
  log are exactly the changes of its code: no two reports in a row are equal, the first
  differs from the code before the run, and the last one is the code in the table.\<close>

theorem elog_run_reports_changes:
  assumes "elog_wf s" "elog_map s c = Some w"
  shows "\<exists>cs. trace (elog_run env ops s) = trace s @ cs \<and>
    distinct_adj (w # elog_reports c cs) \<and>
    elog_map (elog_run env ops s) c = Some (last (w # elog_reports c cs))"
  using assms by (rule elog_run_reports)

theorem elog_run_reports_changes_witness:
  "elog_wf log_registered \<and> elog_map log_registered 0xF0 = Some 0x40 \<and>
   (\<exists>cs. trace (elog_run log_env_ok [Op_set 0xF0 0x41, Op_set 0xF0 0x41] log_registered) =
       trace log_registered @ cs \<and> distinct_adj (0x40 # elog_reports 0xF0 cs) \<and>
     elog_map (elog_run log_env_ok [Op_set 0xF0 0x41, Op_set 0xF0 0x41] log_registered) 0xF0 =
       Some (last (0x40 # elog_reports 0xF0 cs)))"
proof -
  have m: "elog_map log_registered 0xF0 = Some 0x40" by (simp add: log_registered_facts)
  show ?thesis
    using log_registered_facts(1) m elog_run_reports_changes [OF log_registered_facts(1) m] by blast
qed

text \<open>The 16-bit event identifier determines the component and the code it was made of.\<close>

lemma elog_event_id_roundtrip:
  "ucast (drop_bit 8 (elog_event_id c v)) = c \<and> ucast (elog_event_id c v) = v"
  by (simp add: elog_event_id_decode)

text \<open>C36. A report the event log refuses is lost: the write returns \<open>- ENOENT\<close> but keeps the
  new code, so that writing the same code again returns 0 and reports nothing.\<close>

theorem SystemSetELog_failed_report_lost:
  assumes "elog_wf s" "elog_map s c = Some w" "w \<noteq> v"
    and "env_UtilityLogWriteELog env (trace s @ [OS (Call_mutex_lock elog_entry_mutex)])
           (elog_event_id c v) \<noteq> kUtilityLogStatusOk"
  shows "fst (SystemSetELog env c v s) = - ENOENT \<and>
    elog_map (snd (SystemSetELog env c v s)) c = Some v \<and>
    fst (SystemSetELog env c v (snd (SystemSetELog env c v s))) = 0 \<and>
    trace (snd (SystemSetELog env c v (snd (SystemSetELog env c v s)))) =
      trace (snd (SystemSetELog env c v s)) @
      [OS (Call_mutex_lock elog_entry_mutex), OS (Call_mutex_unlock elog_entry_mutex)]"
proof -
  let ?s = "snd (SystemSetELog env c v s)"
  have m: "elog_map ?s c = Some v" and w: "elog_wf ?s"
    using assms by (simp_all add: elog.store_laws)
  have "fst (SystemSetELog env c v s) = - ENOENT"
    using assms by (simp add: SystemSetELog_eq elog_set_ret_def)
  moreover have "fst (SystemSetELog env c v ?s) = 0"
    using m w by (rule elog.put_same [rotated])
  moreover have "trace (snd (SystemSetELog env c v ?s)) = trace ?s @
      [OS (Call_mutex_lock elog_entry_mutex), OS (Call_mutex_unlock elog_entry_mutex)]"
    using m w by (simp add: SystemSetELog_eq [OF w] elog_set_calls_def)
  ultimately show ?thesis using m by blast
qed

theorem SystemSetELog_failed_report_lost_witness:
  "let env = log_env_ok\<lparr>env_UtilityLogWriteELog := \<lambda>_ _. UtilityLogStatusError 1\<rparr> in
   elog_map log_registered 0xF0 = Some 0x40 \<and>
   fst (SystemSetELog env 0xF0 0x41 log_registered) = - ENOENT \<and>
   fst (SystemSetELog env 0xF0 0x41 (snd (SystemSetELog env 0xF0 0x41 log_registered))) = 0"
proof -
  let ?env = "log_env_ok\<lparr>env_UtilityLogWriteELog := \<lambda>_ _. UtilityLogStatusError 1\<rparr>"
  have m: "elog_map log_registered 0xF0 = Some 0x40" by (simp add: log_registered_facts)
  show ?thesis
    using m SystemSetELog_failed_report_lost [OF log_registered_facts(1) m, of "0x41" ?env]
    by (simp add: Let_def)
qed

text \<open>C26. Every table operation is one critical section: the calls of a run are, operation by
  operation, the lock of the table's mutex, the calls the operation makes while it holds it
  (among them every report to the event log), none of which touches a mutex, and the unlock.\<close>

theorem elog_run_lock_discipline:
  assumes "elog_wf s"
  shows "\<exists>bodies. length bodies = length ops \<and>
    trace (elog_run env ops s) = trace s @ concat (map (\<lambda>body.
      [OS (Call_mutex_lock elog_entry_mutex)] @ body @ [OS (Call_mutex_unlock elog_entry_mutex)]) bodies) \<and>
    (\<forall>body \<in> set bodies. \<forall>m.
      OS (Call_mutex_lock m) \<notin> set body \<and> OS (Call_mutex_unlock m) \<notin> set body)"
  using assms
proof (induction ops arbitrary: s)
  case Nil
  then show ?case by (simp add: elog_run_def)
next
  case (Cons op ops)
  obtain b where b: "trace (elog_exec env op s) = trace s @ elog_section b" "\<forall>c \<in> set b. \<not> lock_call c"
    using elog_exec_section [OF Cons.prems] by blast
  obtain bs where bs: "length bs = length ops"
      "trace (elog_run env ops (elog_exec env op s)) = trace (elog_exec env op s) @ concat (map (\<lambda>body.
        [OS (Call_mutex_lock elog_entry_mutex)] @ body @ [OS (Call_mutex_unlock elog_entry_mutex)]) bs)"
      "\<forall>body \<in> set bs. \<forall>m. OS (Call_mutex_lock m) \<notin> set body \<and> OS (Call_mutex_unlock m) \<notin> set body"
    using Cons.IH [OF elog_exec_wf [OF Cons.prems]] by blast
  have "\<forall>m. OS (Call_mutex_lock m) \<notin> set b \<and> OS (Call_mutex_unlock m) \<notin> set b"
    using b(2) unfolding lock_call_def by blast
  with b(1) bs show ?case
    by (intro exI [of _ "b # bs"]) (simp add: elog_run_def elog_section_def)
qed

theorem elog_run_lock_discipline_witness:
  "elog_wf log_start \<and>
   (\<exists>bodies. length bodies = 3 \<and>
      trace (elog_run log_env_ok [Op_reg 1 2 ''m'', Op_set 1 3, Op_get 1] log_start) =
      trace log_start @ concat (map (\<lambda>body. [OS (Call_mutex_lock elog_entry_mutex)] @ body @
        [OS (Call_mutex_unlock elog_entry_mutex)]) bodies))"
  using log_start_facts(1) elog_run_lock_discipline [OF log_start_facts(1),
      of "[Op_reg 1 2 ''m'', Op_set 1 3, Op_get 1]" log_env_ok]
  by (simp add: numeral_3_eq_3) blast

text \<open>C17. The log handler prints a message in chunks of at most 256 characters that, put
  together, are the message (its first 4095 characters when it is longer), adds the
  truncation notice when prefix and message exceed the buffer, and releases its buffer.\<close>

theorem evp_agent_dlog_handler_prints_message:
  assumes "c_format fmt ap = Some msg" "NUL \<notin> set msg"
    and "dlog_total_len file line msg \<le> INT_MAX"
    and "env_malloc env (trace s) (Alloc_log_buf (dlog_buffer_size file line msg))"
    and "heap_wf s"
  shows "\<exists>chunks notice.
    trace (evp_agent_dlog_handler env lvl file line fmt ap s) =
      trace s @ [OS (Call_malloc (Alloc_log_buf (dlog_buffer_size file line msg)))] @
      chunks @ notice @ [OS (Call_free (fresh s))] \<and>
    concat (map chunk_text chunks) = take 4095 msg \<and>
    (\<forall>c \<in> set chunks. \<exists>k n. c = dlog_chunk_call (dlog_handler_level lvl) (EVP_FILE_NAME file) line
        (take 4095 msg) k n \<and> 0 < n \<and> n \<le> LOG_CHUNK_SIZE) \<and>
    notice = (if dlog_total_len file line msg > LOG_BUFFER_SIZE
      then [dlog_truncated_call (dlog_handler_level lvl) (EVP_FILE_NAME file) line
              (dlog_total_len file line msg)] else []) \<and>
    live (evp_agent_dlog_handler env lvl file line fmt ap s) = live s \<and>
    ub (evp_agent_dlog_handler env lvl file line fmt ap s) = ub s"
proof (intro exI conjI)
  let ?chunks = "chunk_calls (dlog_handler_level lvl) (EVP_FILE_NAME file) line (take 4095 msg) 0"
  note eq = evp_agent_dlog_handler_eq [OF assms(1-4), of lvl]
  show "trace (evp_agent_dlog_handler env lvl file line fmt ap s) =
      trace s @ [OS (Call_malloc (Alloc_log_buf (dlog_buffer_size file line msg)))] @ ?chunks @
      (if dlog_total_len file line msg > LOG_BUFFER_SIZE
       then [dlog_truncated_call (dlog_handler_level lvl) (EVP_FILE_NAME file) line
              (dlog_total_len file line msg)] else []) @ [OS (Call_free (fresh s))]"
    by (simp add: eq)
  show "concat (map chunk_text ?chunks) = take 4095 msg"
    by (simp add: concat_chunk_calls)
  show "\<forall>c \<in> set ?chunks. \<exists>k n. c = dlog_chunk_call (dlog_handler_level lvl) (EVP_FILE_NAME file)
      line (take 4095 msg) k n \<and> 0 < n \<and> n \<le> LOG_CHUNK_SIZE"
    using chunk_calls_form by blast
  show "live (evp_agent_dlog_handler env lvl file line fmt ap s) = live s"
    "ub (evp_agent_dlog_handler env lvl file line fmt ap s) = ub s"
    using assms(5) by (auto simp: eq)
qed (rule refl)

theorem evp_agent_dlog_handler_prints_message_witness:
  "c_format ''n=%d'' [FInt 5] = Some ''n=5'' \<and>
   (\<exists>chunks. concat (map chunk_text chunks) = ''n=5'' \<and>
     trace (evp_agent_dlog_handler log_env_ok 2 ''src/a.c'' 7 ''n=%d'' [FInt 5] log_start) =
       [OS (Call_malloc (Alloc_log_buf 12))] @ chunks @ [OS (Call_free 0)])"
proof -
  have f: "c_format ''n=%d'' [FInt 5] = Some ''n=5''"
    by code_simp
  have n: "EVP_FILE_NAME ''src/a.c'' = ''a.c''" by (simp add: EVP_FILE_NAME_def)
  have t: "dlog_total_len ''src/a.c'' 7 ''n=5'' = 12"
    by (simp add: dlog_total_len_def dlog_prefix_def n int_dec_def nat_base.simps)
  have b: "dlog_buffer_size ''src/a.c'' 7 ''n=5'' = 12"
    by (simp add: dlog_buffer_size_def t LOG_BUFFER_SIZE_def)
  show ?thesis
    using f evp_agent_dlog_handler_prints_message [OF f _ _ _ log_start_facts(4),
        of "''src/a.c''" 7 log_env_ok 2]
    by (simp add: t b INT_MAX_def LOG_BUFFER_SIZE_def log_env_ok_def) (auto simp: log_start_def)
qed

text \<open>The truncation notice counts the prefix although the buffer holds the message only: a
  message that fits is printed whole and still reported as truncated by a positive number
  of bytes when prefix and message together exceed 4096.\<close>

lemma evp_agent_dlog_handler_false_truncation:
  assumes "c_format fmt ap = Some msg" "NUL \<notin> set msg" "length msg \<le> 4095"
    and "dlog_total_len file line msg > LOG_BUFFER_SIZE"
    and "dlog_total_len file line msg \<le> INT_MAX"
    and "env_malloc env (trace s) (Alloc_log_buf (dlog_buffer_size file line msg))"
  shows "\<exists>chunks.
    trace (evp_agent_dlog_handler env lvl file line fmt ap s) =
      trace s @ [OS (Call_malloc (Alloc_log_buf (dlog_buffer_size file line msg)))] @ chunks @
      [dlog_truncated_call (dlog_handler_level lvl) (EVP_FILE_NAME file) line
         (dlog_total_len file line msg), OS (Call_free (fresh s))] \<and>
    concat (map chunk_text chunks) = msg"
  using assms(3,4)
  by (simp add: evp_agent_dlog_handler_eq [OF assms(1,2,5,6), of lvl])
    (use concat_chunk_calls [of "dlog_handler_level lvl" "EVP_FILE_NAME file" line msg 0] in auto)

text \<open>The file name of a log line is the part of the path after its last slash.\<close>

lemma EVP_FILE_NAME_basename:
  "suffix (EVP_FILE_NAME file) file \<and> CHR ''/'' \<notin> set (EVP_FILE_NAME file) \<and>
   (EVP_FILE_NAME file = file \<or> suffix (CHR ''/'' # EVP_FILE_NAME file) file)"
proof (cases "strrchr file (CHR ''/'')")
  case None
  moreover from this have "CHR ''/'' \<notin> set file" by (simp add: strrchr_None)
  ultimately show ?thesis by (simp add: EVP_FILE_NAME_def)
next
  case (Some r)
  from strrchr_Some [OF this] obtain p q where "file = p @ CHR ''/'' # q" "r = CHR ''/'' # q"
    "CHR ''/'' \<notin> set q" by blast
  with Some show ?thesis by (auto simp: EVP_FILE_NAME_def suffix_def)
qed

end
