(* ===== verification/Esf.thy ===== *)
theory Esf
  imports Log
begin

text \<open>
  \<open>esf.c\<close>: the proxy cache, the search for the client certificate and key, and
  \<open>evp_agent_esf_read_config\<close>, which answers the agent's configuration keys from the proxy
  cache, the system manager and the certificate files.

  The numbers of \<open>enum config_key\<close> and the size macros come from headers outside the
  repository: they are fields of the environment. The table \<open>g_max_sizes\<close> is built from its
  designated initialisers as the compiler does.
\<close>

section \<open>Types and environment\<close>

datatype config_key =
    EVP_CONFIG_TLS_CA_CERT
  | EVP_CONFIG_MQTT_HOST
  | EVP_CONFIG_MQTT_PORT
  | EVP_CONFIG_MQTT_TLS_CA_CERT
  | EVP_CONFIG_MQTT_TLS_CLIENT_CERT
  | EVP_CONFIG_MQTT_TLS_CLIENT_KEY
  | EVP_CONFIG_HTTPS_CA_CERT
  | EVP_CONFIG_MQTT_PROXY_HOST
  | EVP_CONFIG_MQTT_PROXY_PORT
  | EVP_CONFIG_MQTT_PROXY_USERNAME
  | EVP_CONFIG_MQTT_PROXY_PASSWORD
  | EVP_CONFIG_HTTP_PROXY_HOST
  | EVP_CONFIG_HTTP_PROXY_PORT
  | EVP_CONFIG_HTTP_PROXY_USERNAME
  | EVP_CONFIG_HTTP_PROXY_PASSWORD
  | EVP_CONFIG_IOT_PLATFORM
  | EVP_CONFIG_PK_FILE
  | EVP_CONFIG_OTHER nat

datatype size_macro =
    ESF_SYSTEM_MANAGER_ROOT_CA_MAX_SIZE
  | ESF_SYSTEM_MANAGER_EVP_HUB_URL_MAX_SIZE
  | ESF_SYSTEM_MANAGER_EVP_HUB_PORT_MAX_SIZE
  | ESF_SYSTEM_MANAGER_IOT_PLATFORM_MAX_SIZE
  | ESF_SYSTEM_MANAGER_PROJECT_ID_MAX_SIZE
  | ESF_SYSTEM_MANAGER_REGISTER_TOKEN_MAX_SIZE
  | ESF_NETWORK_MANAGER_PROXY_URL_LEN
  | ESF_NETWORK_MANAGER_PROXY_PORT_LEN
  | ESF_NETWORK_MANAGER_PROXY_USER_NAME_LEN
  | ESF_NETWORK_MANAGER_PROXY_PASSWORD_LEN

datatype sysmgr_result = kEsfSystemManagerResultOk | EsfSystemManagerError nat

datatype evp_tls_value = kEsfSystemManagerEvpTlsDisable | EvpTlsOther nat

record proxy_param =
  pp_url :: "char list"
  pp_port :: int
  pp_username :: "char list"
  pp_password :: "char list"

text \<open>A heap string: its block and its characters.\<close>

type_synonym heap_string = "nat \<times> string"

record proxy_cache =
  pc_host :: "heap_string option"
  pc_port :: string
  pc_username :: "heap_string option"
  pc_password :: "heap_string option"

record esf_state = log_state +
  g_proxy_cache :: proxy_cache

record esf_env = log_env +
  config_key_value :: "config_key \<Rightarrow> nat"
  env_size :: "size_macro \<Rightarrow> nat"
  kEsfNetworkManagerResultSuccess :: int
  env_GetEvpTls :: "history \<Rightarrow> sysmgr_result \<times> evp_tls_value"
  env_LoadParameter :: "history \<Rightarrow> int \<times> proxy_param"
  env_SystemManagerGet :: "history \<Rightarrow> sysmgr_item \<Rightarrow> nat \<Rightarrow> sysmgr_result \<times> char list"
  env_getenv :: "history \<Rightarrow> string \<Rightarrow> string option"
  env_opendir :: "history \<Rightarrow> string \<Rightarrow> string list option"
  env_open :: "history \<Rightarrow> string \<Rightarrow> int"
  env_read :: "history \<Rightarrow> int \<Rightarrow> nat \<Rightarrow> int \<times> char list"
  env_asprintf_failed :: "history \<Rightarrow> nat option"

record evp_config =
  cfg_block :: nat
  cfg_key :: config_key
  cfg_value_block :: nat
  cfg_value :: "char list"
  cfg_size :: nat

section \<open>Maximum sizes\<close>

definition MQTT_TLS_CLIENT_CERT_MAX_SIZE :: nat where "MQTT_TLS_CLIENT_CERT_MAX_SIZE = 32768"
definition MQTT_TLS_CLIENT_KEY_MAX_SIZE :: nat where "MQTT_TLS_CLIENT_KEY_MAX_SIZE = 4096"
definition MQTT_TLS_CLIENT_CERT_KEY_DEFAULT_DIR :: string where
  "MQTT_TLS_CLIENT_CERT_KEY_DEFAULT_DIR = ''/etc/evp''"

definition g_max_sizes_designators :: "'e esf_env_scheme \<Rightarrow> (config_key \<times> nat) list" where
  "g_max_sizes_designators env =
     [(EVP_CONFIG_TLS_CA_CERT, env_size env ESF_SYSTEM_MANAGER_ROOT_CA_MAX_SIZE),
      (EVP_CONFIG_MQTT_HOST, env_size env ESF_SYSTEM_MANAGER_EVP_HUB_URL_MAX_SIZE),
      (EVP_CONFIG_MQTT_PORT, env_size env ESF_SYSTEM_MANAGER_EVP_HUB_PORT_MAX_SIZE),
      (EVP_CONFIG_MQTT_TLS_CA_CERT, env_size env ESF_SYSTEM_MANAGER_ROOT_CA_MAX_SIZE),
      (EVP_CONFIG_MQTT_TLS_CLIENT_CERT, MQTT_TLS_CLIENT_CERT_MAX_SIZE),
      (EVP_CONFIG_MQTT_TLS_CLIENT_KEY, MQTT_TLS_CLIENT_KEY_MAX_SIZE),
      (EVP_CONFIG_HTTPS_CA_CERT, env_size env ESF_SYSTEM_MANAGER_ROOT_CA_MAX_SIZE),
      (EVP_CONFIG_MQTT_PROXY_HOST, env_size env ESF_NETWORK_MANAGER_PROXY_URL_LEN),
      (EVP_CONFIG_MQTT_PROXY_PORT, env_size env ESF_NETWORK_MANAGER_PROXY_PORT_LEN),
      (EVP_CONFIG_MQTT_PROXY_USERNAME, env_size env ESF_NETWORK_MANAGER_PROXY_USER_NAME_LEN),
      (EVP_CONFIG_MQTT_PROXY_PASSWORD, env_size env ESF_NETWORK_MANAGER_PROXY_PASSWORD_LEN),
      (EVP_CONFIG_HTTP_PROXY_HOST, env_size env ESF_NETWORK_MANAGER_PROXY_URL_LEN),
      (EVP_CONFIG_HTTP_PROXY_PORT, env_size env ESF_NETWORK_MANAGER_PROXY_PORT_LEN),
      (EVP_CONFIG_HTTP_PROXY_USERNAME, env_size env ESF_NETWORK_MANAGER_PROXY_USER_NAME_LEN),
      (EVP_CONFIG_HTTP_PROXY_PASSWORD, env_size env ESF_NETWORK_MANAGER_PROXY_PASSWORD_LEN),
      (EVP_CONFIG_IOT_PLATFORM, env_size env ESF_SYSTEM_MANAGER_IOT_PLATFORM_MAX_SIZE)]"

text \<open>
  An array with designated initialisers has one element more than the largest designator;
  elements that no designator names are 0.
\<close>

definition g_max_sizes :: "'e esf_env_scheme \<Rightarrow> nat list" where
  "g_max_sizes env =
     (let ds = map (\<lambda>(k, v). (config_key_value env k, v)) (g_max_sizes_designators env)
      in fold (\<lambda>(i, v) arr. arr[i := v]) ds (replicate (Suc (foldr max (map fst ds) 0)) 0))"

section \<open>TLS\<close>

definition evp_agent_esf_is_tls_enabled ::
  "'e esf_env_scheme \<Rightarrow> 's log_state_scheme \<Rightarrow> bool \<times> 's log_state_scheme" where
  "evp_agent_esf_is_tls_enabled env s =
     (let (result, TlsData) = env_GetEvpTls env (trace s);
          s1 = emit (ESF Call_EsfSystemManagerGetEvpTls) s
      in if result \<noteq> kEsfSystemManagerResultOk then
           (True, emit (EVP_AGENT_WARN ''esf.c'' 68
              ''EsfSystemManagerGetEvpTls() failed, attempt to use TLS'' []) s1)
         else if TlsData = kEsfSystemManagerEvpTlsDisable then (False, s1)
         else (True, s1))"

section \<open>The proxy cache\<close>

definition evp_agent_esf_deinit_proxy_cache :: "'s esf_state_scheme \<Rightarrow> 's esf_state_scheme" where
  "evp_agent_esf_deinit_proxy_cache s =
     (let s1 = (case pc_host (g_proxy_cache s) of
                  None \<Rightarrow> s
                | Some h \<Rightarrow> (c_free (Some (fst h)) s)
                    \<lparr>g_proxy_cache := (g_proxy_cache s)\<lparr>pc_host := None\<rparr>\<rparr>);
          s2 = (case pc_username (g_proxy_cache s1) of
                  None \<Rightarrow> s1
                | Some h \<Rightarrow> (c_free (Some (fst h)) s1)
                    \<lparr>g_proxy_cache := (g_proxy_cache s1)\<lparr>pc_username := None\<rparr>\<rparr>);
          s3 = (case pc_password (g_proxy_cache s2) of
                  None \<Rightarrow> s2
                | Some h \<Rightarrow> (c_free (Some (fst h)) s2)
                    \<lparr>g_proxy_cache := (g_proxy_cache s2)\<lparr>pc_password := None\<rparr>\<rparr>)
      in s3)"

text \<open>\<open>strdup\<close> copies the string at the start of the block \<open>blk\<close>; in a block without a NUL it
  reads past the end.\<close>

definition c_strdup ::
  "'e libc_env_scheme \<Rightarrow> char list \<Rightarrow> 's io_state_scheme \<Rightarrow> heap_string option \<times> 's io_state_scheme" where
  "c_strdup env blk s =
     (let s0 = (if NUL \<in> set blk then s else undefined_behaviour s);
          (p, s1) = c_malloc env (Alloc_strdup (cstr blk)) s0
      in (map_option (\<lambda>b. (b, cstr blk)) p, s1))"

text \<open>
  The three steps of \<open>evp_agent_esf_init_proxy_cache\<close> that fill the cache. \<open>Some e\<close> is the
  jump to \<open>end\<close> with \<open>ret = e\<close>.
\<close>

definition save_proxy_host ::
  "'e esf_env_scheme \<Rightarrow> proxy_param \<Rightarrow> 's esf_state_scheme \<Rightarrow> int option \<times> 's esf_state_scheme" where
  "save_proxy_host env prm s =
     (if cstr (pp_url prm) \<noteq> [] then
        let (h, s1) = c_strdup env (pp_url prm) s;
            s2 = s1\<lparr>g_proxy_cache := (g_proxy_cache s1)\<lparr>pc_host := h\<rparr>\<rparr>
        in if h = None then
             (Some (- ENOMEM), emit (EVP_AGENT_ERR ''esf.c'' 128
                ''failed to allocate memory for proxy url'' []) s2)
           else
             let n = env_size env ESF_NETWORK_MANAGER_PROXY_PORT_LEN;
                 port_str_len = vsnprintf_ret ''%d'' [FInt (pp_port prm)];
                 s3 = s2\<lparr>g_proxy_cache := (g_proxy_cache s2)
                        \<lparr>pc_port := vsnprintf_text n ''%d'' [FInt (pp_port prm)]\<rparr>\<rparr>
             in if port_str_len < 0 \<or> port_str_len \<ge> int n then
                  (Some (- ERANGE), emit (EVP_AGENT_ERR ''esf.c'' 138
                     ''snprintf(3) failed with %d'' [FInt port_str_len]) s3)
                else (None, s3)
      else (None, s))"

definition save_proxy_username ::
  "'e esf_env_scheme \<Rightarrow> proxy_param \<Rightarrow> 's esf_state_scheme \<Rightarrow> int option \<times> 's esf_state_scheme" where
  "save_proxy_username env prm s =
     (if cstr (pp_username prm) \<noteq> [] then
        let (h, s1) = c_strdup env (pp_username prm) s;
            s2 = s1\<lparr>g_proxy_cache := (g_proxy_cache s1)\<lparr>pc_username := h\<rparr>\<rparr>
        in if h = None then
             (Some (- ENOMEM), emit (EVP_AGENT_ERR ''esf.c'' 147
                ''failed to allocate memory for proxy username'' []) s2)
           else (None, s2)
      else (None, s))"

definition save_proxy_password ::
  "'e esf_env_scheme \<Rightarrow> proxy_param \<Rightarrow> 's esf_state_scheme \<Rightarrow> int option \<times> 's esf_state_scheme" where
  "save_proxy_password env prm s =
     (if cstr (pp_password prm) \<noteq> [] then
        let (h, s1) = c_strdup env (pp_password prm) s;
            s2 = s1\<lparr>g_proxy_cache := (g_proxy_cache s1)\<lparr>pc_password := h\<rparr>\<rparr>
        in if h = None then
             (Some (- ENOMEM), emit (EVP_AGENT_ERR ''esf.c'' 156
                ''failed to allocate memory for proxy password'' []) s2)
           else (None, s2)
      else (None, s))"

text \<open>The mask after \<open>ESF_NETWORK_MANAGER_MASK_DISABLE_ALL\<close>: the fields that are then set.\<close>

definition proxy_mask :: "proxy_field list" where
  "proxy_mask = [Mask_proxy_url, Mask_proxy_port, Mask_proxy_username, Mask_proxy_password]"

text \<open>The body up to the label \<open>end\<close>, with \<open>prm\<close> already allocated.\<close>

definition init_proxy_cache_load ::
  "'e esf_env_scheme \<Rightarrow> 's esf_state_scheme \<Rightarrow> int \<times> 's esf_state_scheme" where
  "init_proxy_cache_load env s =
     (let (ret, prm) = env_LoadParameter env (trace s);
          s1 = emit (ESF (Call_EsfNetworkManagerLoadParameter proxy_mask)) s
      in if ret \<noteq> kEsfNetworkManagerResultSuccess env then
           (- EIO, emit (EVP_AGENT_ERR ''esf.c'' 120
              ''EsfNetworkManagerLoadParameter failed (%u)'' [FInt ret]) s1)
         else case save_proxy_host env prm s1 of
           (Some e, s2) \<Rightarrow> (e, s2)
         | (None, s2) \<Rightarrow>
             (case save_proxy_username env prm s2 of
                (Some e, s3) \<Rightarrow> (e, s3)
              | (None, s3) \<Rightarrow>
                  (case save_proxy_password env prm s3 of
                     (Some e, s4) \<Rightarrow> (e, s4)
                   | (None, s4) \<Rightarrow> (ret, s4))))"

definition evp_agent_esf_init_proxy_cache ::
  "'e esf_env_scheme \<Rightarrow> 's esf_state_scheme \<Rightarrow> int \<times> 's esf_state_scheme" where
  "evp_agent_esf_init_proxy_cache env s =
     (let (prm, s1) = c_malloc env Alloc_EsfNetworkManagerParameter s;
          (ret, s2) = (if prm = None then
              (- ENOMEM, emit (EVP_AGENT_ERR ''esf.c'' 107
                 ''failed to allocate memory for EsfNetworkManagerParameter'' []) s1)
            else init_proxy_cache_load env s1);
          s3 = c_free prm s2;
          s4 = (if ret \<noteq> 0 then evp_agent_esf_deinit_proxy_cache s3 else s3)
      in (ret, s4))"

section \<open>The client certificate and key\<close>

definition cert_key_suffix :: "config_key \<Rightarrow> string" where
  "cert_key_suffix key =
     (if key = EVP_CONFIG_MQTT_TLS_CLIENT_CERT then ''_cert.pem'' else ''_key.pem'')"

text \<open>
  The loop over the directory: the names \<open>readdir\<close> returns, in its order. A failed \<open>asprintf\<close>
  leaves in \<open>*cert_key_path\<close> what the environment says: the pointer is not looked at again in
  this function, but the caller releases it.
\<close>

fun readdir_loop ::
  "'e esf_env_scheme \<Rightarrow> string \<Rightarrow> string \<Rightarrow> string list \<Rightarrow> 's log_state_scheme \<Rightarrow>
   int \<times> heap_string option \<times> 's log_state_scheme" where
  "readdir_loop env dir_path sfx [] s = (- ENOENT, None, s)"
| "readdir_loop env dir_path sfx (d_name # names) s =
     (if strstr d_name sfx \<noteq> None then
        let path = dir_path @ ''/'' @ d_name;
            (p, s1) = c_malloc env (Alloc_asprintf path) s
        in case p of
             None \<Rightarrow> (- ENOMEM, map_option (\<lambda>b. (b, [])) (env_asprintf_failed env (trace s1)),
                      emit (EVP_AGENT_ERR ''esf.c'' 200 ''asprintf failed'' []) s1)
           | Some b \<Rightarrow> (0, Some (b, path), s1)
      else readdir_loop env dir_path sfx names s)"

definition get_cert_key_path ::
  "'e esf_env_scheme \<Rightarrow> config_key \<Rightarrow> 's log_state_scheme \<Rightarrow>
   int \<times> heap_string option \<times> 's log_state_scheme" where
  "get_cert_key_path env key s =
     (let sfx = cert_key_suffix key;
          v = env_getenv env (trace s) ''EVP_CERT_KEY_DIR_PATH'';
          s1 = emit (OS (Call_getenv ''EVP_CERT_KEY_DIR_PATH'')) s;
          dir_path = (case v of None \<Rightarrow> MQTT_TLS_CLIENT_CERT_KEY_DEFAULT_DIR | Some d \<Rightarrow> d);
          s2 = emit (OS (Call_opendir dir_path)) s1
      in case env_opendir env (trace s1) dir_path of
           None \<Rightarrow>
             (- EIO, None, emit (EVP_AGENT_ERR ''esf.c'' 192
                ''Failed to open %s directory, errno=%d''
                [FStr dir_path, FInt (env_errno env (trace s2))]) s2)
         | Some names \<Rightarrow>
             (let (ret, path, s3) = readdir_loop env dir_path sfx names s2;
                  s4 = (if ret = - ENOENT then emit (EVP_AGENT_ERR ''esf.c'' 212
                          ''Failed to find %s/*%s'' [FStr dir_path, FStr sfx]) s3
                        else s3)
              in (ret, path, emit (OS (Call_closedir dir_path)) s4)))"

text \<open>
  \<open>read_cert_key\<close> fills the block \<open>buf\<close> and returns it. \<open>read\<close> stores what it read at
  the start of the block; more bytes than the block has room for is undefined.
\<close>

definition store_bytes ::
  "char list \<Rightarrow> char list \<Rightarrow> 's io_state_scheme \<Rightarrow> char list \<times> 's io_state_scheme" where
  "store_bytes buf bs s =
     (if length bs \<le> length buf then (write_bytes buf bs, s) else (buf, undefined_behaviour s))"

definition store_nul ::
  "char list \<Rightarrow> nat \<Rightarrow> 's io_state_scheme \<Rightarrow> char list \<times> 's io_state_scheme" where
  "store_nul buf n s =
     (if 0 < n \<and> n \<le> length buf then (buf[n - 1 := NUL], s)
      else (buf, undefined_behaviour s))"

definition read_cert_key ::
  "'e esf_env_scheme \<Rightarrow> config_key \<Rightarrow> char list \<Rightarrow> nat \<Rightarrow> 's log_state_scheme \<Rightarrow>
   int \<times> char list \<times> 's log_state_scheme" where
  "read_cert_key env key buf buf_size s =
     (let (ret, path, s1) = get_cert_key_path env key s;
          b = map_option fst path;
          name = (case path of None \<Rightarrow> [] | Some p \<Rightarrow> snd p)
      in if ret \<noteq> 0 then
           (ret, buf, c_free b (emit (EVP_AGENT_ERR ''esf.c'' 228 ''get_cert_key_path() failed'' []) s1))
         else
           let fd = env_open env (trace s1) name;
               s2 = emit (OS (Call_open name)) s1
           in if fd < 0 then
                (- EIO, buf, c_free b (emit (EVP_AGENT_ERR ''esf.c'' 234
                   ''failed to open %s, errno=%d'' [FStr name, FInt (env_errno env (trace s2))]) s2))
              else
                let (nread, bs) = env_read env (trace s2) fd (buf_size - 1);
                    s3 = emit (OS (Call_read fd (buf_size - 1))) s2
                in if nread \<le> 0 then
                     (- EIO, buf, c_free b (emit (OS (Call_close fd))
                        (emit (EVP_AGENT_ERR ''esf.c'' 241
                           ''failed to read from %s, nread=%zd errno=%d''
                           [FStr name, FInt nread, FInt (env_errno env (trace s3))]) s3)))
                   else
                     let (buf1, s4) = store_bytes buf (take (nat nread) bs) s3;
                         (buf2, s5) = store_nul buf1 buf_size s4
                     in (ret, buf2, c_free b (emit (OS (Call_close fd)) s5)))"

section \<open>Reading a configuration value\<close>

text \<open>The branches of the switch: success, the block, the state.\<close>

definition config_from_cache ::
  "string option \<Rightarrow> char list \<Rightarrow> nat \<Rightarrow> 's log_state_scheme \<Rightarrow> bool \<times> char list \<times> 's log_state_scheme" where
  "config_from_cache v buf max_size s =
     (case v of
        None \<Rightarrow> (False, buf, s)
      | Some src \<Rightarrow>
          (let (buf1, s1) = store_nul (strncpy buf src max_size) max_size s in (True, buf1, s1)))"

definition EsfSystemManagerGet ::
  "'e esf_env_scheme \<Rightarrow> sysmgr_item \<Rightarrow> char list \<Rightarrow> nat \<Rightarrow> 's io_state_scheme \<Rightarrow>
   sysmgr_result \<times> char list \<times> 's io_state_scheme" where
  "EsfSystemManagerGet env item buf max_size s =
     (let (r, bs) = env_SystemManagerGet env (trace s) item max_size;
          s1 = emit (ESF (Call_EsfSystemManagerGet item max_size)) s;
          (buf1, s2) = store_bytes buf bs s1
      in (r, buf1, s2))"

definition config_from_sysmgr ::
  "'e esf_env_scheme \<Rightarrow> sysmgr_item \<Rightarrow> int \<Rightarrow> string \<Rightarrow> char list \<Rightarrow> nat \<Rightarrow>
   's log_state_scheme \<Rightarrow> bool \<times> char list \<times> 's log_state_scheme" where
  "config_from_sysmgr env item line err buf max_size s =
     (let (r, buf1, s1) = EsfSystemManagerGet env item buf max_size s
      in if r \<noteq> kEsfSystemManagerResultOk then (False, buf1, emit (EVP_AGENT_ERR ''esf.c'' line err []) s1)
         else (True, buf1, s1))"

definition config_from_cert_key ::
  "'e esf_env_scheme \<Rightarrow> config_key \<Rightarrow> char list \<Rightarrow> nat \<Rightarrow> 's log_state_scheme \<Rightarrow>
   bool \<times> char list \<times> 's log_state_scheme" where
  "config_from_cert_key env key buf max_size s =
     (let (r, buf1, s1) = read_cert_key env key buf (max_size + 1) s
      in if r \<noteq> 0 then (False, buf1, emit (EVP_AGENT_ERR ''esf.c'' 351 ''read_cert_key() failed'' []) s1)
         else (True, buf1, s1))"

definition read_config_switch ::
  "'e esf_env_scheme \<Rightarrow> config_key \<Rightarrow> char list \<Rightarrow> nat \<Rightarrow> 's esf_state_scheme \<Rightarrow>
   bool \<times> char list \<times> 's esf_state_scheme" where
  "read_config_switch env key buf max_size s =
     (let cache = g_proxy_cache s in
      case key of
        EVP_CONFIG_MQTT_PROXY_HOST \<Rightarrow> config_from_cache (map_option snd (pc_host cache)) buf max_size s
      | EVP_CONFIG_HTTP_PROXY_HOST \<Rightarrow> config_from_cache (map_option snd (pc_host cache)) buf max_size s
      | EVP_CONFIG_MQTT_PROXY_PORT \<Rightarrow>
          config_from_cache (if pc_port cache \<noteq> [] then Some (pc_port cache) else None) buf max_size s
      | EVP_CONFIG_HTTP_PROXY_PORT \<Rightarrow>
          config_from_cache (if pc_port cache \<noteq> [] then Some (pc_port cache) else None) buf max_size s
      | EVP_CONFIG_MQTT_PROXY_USERNAME \<Rightarrow>
          config_from_cache (map_option snd (pc_username cache)) buf max_size s
      | EVP_CONFIG_HTTP_PROXY_USERNAME \<Rightarrow>
          config_from_cache (map_option snd (pc_username cache)) buf max_size s
      | EVP_CONFIG_HTTP_PROXY_PASSWORD \<Rightarrow>
          config_from_cache (map_option snd (pc_password cache)) buf max_size s
      | EVP_CONFIG_MQTT_PROXY_PASSWORD \<Rightarrow>
          config_from_cache (map_option snd (pc_password cache)) buf max_size s
      | EVP_CONFIG_TLS_CA_CERT \<Rightarrow>
          config_from_sysmgr env RootCa 323 ''EsfSystemManagerGetRootCa() failed'' buf max_size s
      | EVP_CONFIG_MQTT_TLS_CA_CERT \<Rightarrow>
          config_from_sysmgr env RootCa 323 ''EsfSystemManagerGetRootCa() failed'' buf max_size s
      | EVP_CONFIG_HTTPS_CA_CERT \<Rightarrow>
          config_from_sysmgr env RootCa 323 ''EsfSystemManagerGetRootCa() failed'' buf max_size s
      | EVP_CONFIG_MQTT_HOST \<Rightarrow>
          config_from_sysmgr env EvpHubUrl 330 ''EsfSystemManagerGetEvpHubUrl() failed'' buf max_size s
      | EVP_CONFIG_MQTT_PORT \<Rightarrow>
          config_from_sysmgr env EvpHubPort 337 ''EsfSystemManagerGetEvpHubPort() failed'' buf max_size s
      | EVP_CONFIG_IOT_PLATFORM \<Rightarrow>
          config_from_sysmgr env EvpIotPlatform 344 ''EsfSystemManagerGetEvpIotPlatform() failed''
            buf max_size s
      | EVP_CONFIG_MQTT_TLS_CLIENT_CERT \<Rightarrow> config_from_cert_key env key buf max_size s
      | EVP_CONFIG_MQTT_TLS_CLIENT_KEY \<Rightarrow> config_from_cert_key env key buf max_size s
      | _ \<Rightarrow> (False, buf, s))"

text \<open>\<open>strlen\<close> of a block without a NUL reads past its end.\<close>

definition evp_agent_esf_read_config ::
  "'e esf_env_scheme \<Rightarrow> config_key \<Rightarrow> 's esf_state_scheme \<Rightarrow> evp_config option \<times> 's esf_state_scheme" where
  "evp_agent_esf_read_config env key s =
     (if config_key_value env key \<ge> length (g_max_sizes env) then
        (None, emit (EVP_AGENT_ERR ''esf.c'' 265 ''No known size for key'' []) s)
      else
        let max_size = g_max_sizes env ! config_key_value env key;
            (p, s1) = c_malloc env (Alloc_config_buf (max_size + 1)) s
        in case p of
             None \<Rightarrow> (None, emit (EVP_AGENT_ERR ''esf.c'' 272
                ''Failed to allocate memory buffer for config'' []) s1)
           | Some b \<Rightarrow>
               (let (is_success, buf, s2) =
                      read_config_switch env key (replicate (max_size + 1) NUL) max_size s1
                in if \<not> is_success then (None, c_free (Some b) s2)
                   else
                     let (q, s3) = c_malloc env Alloc_config s2
                     in case q of
                          None \<Rightarrow> (None, c_free (Some b) (emit (EVP_AGENT_ERR ''esf.c'' 366
                             ''Failed to allocate memory for config struct'' []) s3))
                        | Some cb \<Rightarrow>
                            (Some \<lparr>cfg_block = cb, cfg_key = key, cfg_value_block = b,
                               cfg_value = buf, cfg_size = length (cstr buf) + 1\<rparr>,
                             if NUL \<in> set buf then s3 else undefined_behaviour s3)))"

section \<open>What the program relies on\<close>

text \<open>
  Documented behaviour of the code outside the repository: enumerators are distinct, the
  size macros are positive, the system manager writes no more bytes than the size it is
  given, \<open>read\<close> returns no more than it was asked for, and a successful
  \<open>EsfNetworkManagerLoadParameter\<close> leaves terminated strings in the three text fields. The
  last clause, that a failed \<open>asprintf\<close> leaves the pointer NULL, is what the BSD manual
  promises and what \<open>read_cert_key\<close> relies on; the GNU manual leaves the pointer undefined,
  and \<open>read_cert_key_frees_unset_pointer\<close> below shows what happens then.
\<close>

definition proxy_param_ok :: "proxy_param \<Rightarrow> bool" where
  "proxy_param_ok prm \<longleftrightarrow>
     NUL \<in> set (pp_url prm) \<and> NUL \<in> set (pp_username prm) \<and> NUL \<in> set (pp_password prm)"

definition esf_contract :: "'e esf_env_scheme \<Rightarrow> bool" where
  "esf_contract env \<longleftrightarrow> inj (config_key_value env) \<and> (\<forall>m. 0 < env_size env m) \<and>
     (\<forall>h i n. length (snd (env_SystemManagerGet env h i n)) \<le> n) \<and>
     (\<forall>h fd n. fst (env_read env h fd n) \<le> int n) \<and>
     (\<forall>h. fst (env_LoadParameter env h) = kEsfNetworkManagerResultSuccess env \<longrightarrow>
        proxy_param_ok (snd (env_LoadParameter env h))) \<and>
     (\<forall>h. env_asprintf_failed env h = None)"

section \<open>The size table\<close>

lemma length_fold_update: "length (fold (\<lambda>(i, v) arr. arr[i := v]) ds arr) = length arr"
  by (induction ds arbitrary: arr) auto

lemma fold_update_notin:
  "i \<notin> fst ` set ds \<Longrightarrow> fold (\<lambda>(i, v) arr. arr[i := v]) ds arr ! i = arr ! i"
  by (induction ds arbitrary: arr) auto

lemma fold_update_in:
  "distinct (map fst ds) \<Longrightarrow> (i, v) \<in> set ds \<Longrightarrow> i < length arr \<Longrightarrow>
     fold (\<lambda>(i, v) arr. arr[i := v]) ds arr ! i = v"
proof (induction ds arbitrary: arr)
  case Nil
  then show ?case by simp
next
  case (Cons d ds)
  show ?case
  proof (cases "d = (i, v)")
    case True
    with Cons.prems show ?thesis by (simp add: fold_update_notin)
  next
    case False
    with Cons show ?thesis by (cases d) auto
  qed
qed

lemma foldr_max_ge: "x \<in> set xs \<Longrightarrow> x \<le> foldr max xs (0::nat)"
  by (induction xs) auto

definition config_max_size :: "'e esf_env_scheme \<Rightarrow> config_key \<Rightarrow> nat option" where
  "config_max_size env key = map_of (g_max_sizes_designators env) key"

lemma designators_distinct: "distinct (map fst (g_max_sizes_designators env))"
  by (simp add: g_max_sizes_designators_def)

lemma g_max_sizes_lookup:
  assumes "inj (config_key_value env)"
  shows "config_max_size env key = Some v \<Longrightarrow>
      config_key_value env key < length (g_max_sizes env) \<and>
      g_max_sizes env ! config_key_value env key = v"
    and "config_max_size env key = None \<Longrightarrow>
      config_key_value env key < length (g_max_sizes env) \<Longrightarrow>
      g_max_sizes env ! config_key_value env key = 0"
proof -
  let ?val = "config_key_value env"
  let ?ds = "map (\<lambda>(k, v). (?val k, v)) (g_max_sizes_designators env)"
  have fst: "map fst ?ds = map ?val (map fst (g_max_sizes_designators env))" by auto
  have d: "distinct (map fst ?ds)"
    unfolding fst
    by (subst distinct_map) (use designators_distinct assms in \<open>auto intro: inj_on_subset\<close>)
  have eq: "g_max_sizes env = fold (\<lambda>(i, v) arr. arr[i := v]) ?ds
      (replicate (Suc (foldr max (map fst ?ds) 0)) 0)"
    by (simp add: g_max_sizes_def Let_def)
  show "config_max_size env key = Some v \<Longrightarrow>
      ?val key < length (g_max_sizes env) \<and> g_max_sizes env ! ?val key = v"
  proof -
    assume "config_max_size env key = Some v"
    then have "(key, v) \<in> set (g_max_sizes_designators env)"
      by (simp add: config_max_size_def map_of_SomeD)
    then have m: "(?val key, v) \<in> set ?ds" by force
    then have "?val key \<in> set (map fst ?ds)" by force
    then have l: "?val key < Suc (foldr max (map fst ?ds) 0)"
      using foldr_max_ge le_imp_less_Suc by blast
    with m d show ?thesis by (simp only: eq length_fold_update length_replicate fold_update_in)
  qed
  show "config_max_size env key = None \<Longrightarrow> ?val key < length (g_max_sizes env) \<Longrightarrow>
      g_max_sizes env ! ?val key = 0"
  proof -
    assume n: "config_max_size env key = None" and l: "?val key < length (g_max_sizes env)"
    from n have "key \<notin> fst ` set (g_max_sizes_designators env)"
      by (simp add: config_max_size_def map_of_eq_None_iff)
    moreover have "fst ` set ?ds = ?val ` fst ` set (g_max_sizes_designators env)"
      using arg_cong [OF fst, of set] by (simp only: set_map)
    ultimately have "?val key \<notin> fst ` set ?ds" 
      by (simp only: inj_image_mem_iff [OF assms] not_False_eq_True)
    with l show ?thesis
      by (simp only: eq fold_update_notin length_fold_update length_replicate nth_replicate
          not_False_eq_True)
  qed
qed

section \<open>Memory discipline of the helpers\<close>

lemma store_bytes_ok:
  "length bs \<le> length buf \<Longrightarrow> store_bytes buf bs s = (write_bytes buf bs, s)"
  by (simp add: store_bytes_def)

lemma store_nul_ok: "0 < n \<Longrightarrow> n \<le> length buf \<Longrightarrow> store_nul buf n s = (buf[n - 1 := NUL], s)"
  by (simp add: store_nul_def)

lemma readdir_loop_allocs:
  assumes "readdir_loop env d sfx names s = (ret, path, s')" "\<forall>h. env_asprintf_failed env h = None"
  shows "allocs neutral (set_option (map_option fst path)) s s' \<and> (ret = 0 \<longleftrightarrow> path \<noteq> None)"
  using assms(1)
proof (induction names)
  case Nil
  then show ?case by auto
next
  case (Cons x names)
  obtain p s1 where m: "c_malloc env (Alloc_asprintf (d @ ''/'' @ x)) s = (p, s1)"
    by (cases "c_malloc env (Alloc_asprintf (d @ ''/'' @ x)) s")
  have a: "allocs neutral (set_option p) s s1" using m by (rule allocs_malloc) simp
  show ?case
  proof (cases "strstr x sfx = None")
    case True
    with Cons show ?thesis by simp
  next
    case False
    with Cons.prems m a assms(2) show ?thesis
      by (cases p) (auto simp: Let_def intro: quiet_emit [THEN allocs_quiet [rotated]])
  qed
qed

lemma get_cert_key_path_allocs:
  assumes "get_cert_key_path env key s = (ret, path, s')" "\<forall>h. env_asprintf_failed env h = None"
  shows "allocs neutral (set_option (map_option fst path)) s s' \<and> (ret = 0 \<longleftrightarrow> path \<noteq> None)"
proof -
  let ?v = "env_getenv env (trace s) ''EVP_CERT_KEY_DIR_PATH''"
  let ?d = "case ?v of None \<Rightarrow> MQTT_TLS_CLIENT_CERT_KEY_DEFAULT_DIR | Some d \<Rightarrow> d"
  let ?s1 = "emit (OS (Call_getenv ''EVP_CERT_KEY_DIR_PATH'')) s"
  let ?s2 = "emit (OS (Call_opendir ?d)) ?s1"
  have q: "quiet neutral s ?s2" by (intro allocs_emit) simp_all
  show ?thesis
  proof (cases "env_opendir env (trace ?s1) ?d")
    case None
    with assms(1) q show ?thesis
      by (auto simp: get_cert_key_path_def Let_def intro!: allocs_emit)
  next
    case (Some names)
    obtain r p s3 where l: "readdir_loop env ?d (cert_key_suffix key) names ?s2 = (r, p, s3)"
      by (cases "readdir_loop env ?d (cert_key_suffix key) names ?s2")
    note a = readdir_loop_allocs [OF l assms(2)]
    then have "allocs neutral (set_option (map_option fst p)) s s3"
      using quiet_allocs [OF q] by blast
    with a assms(1) Some l show ?thesis
      by (auto simp: get_cert_key_path_def Let_def intro!: allocs_emit)
  qed
qed

lemma read_cert_key_quiet:
  assumes "read_cert_key env key buf n s = (ret, buf', s')"
    and "heap_wf s" "length buf = n" "0 < n" "\<forall>h fd k. fst (env_read env h fd k) \<le> int k"
    and "\<forall>h. env_asprintf_failed env h = None"
  shows "quiet neutral s s' \<and> length buf' = n \<and> (ret = 0 \<longrightarrow> buf' ! (n - 1) = NUL)"
proof -
  obtain r path s1 where g: "get_cert_key_path env key s = (r, path, s1)"
    by (cases "get_cert_key_path env key s")
  note a = get_cert_key_path_allocs [OF g assms(6)]
  let ?b = "map_option fst path"
  let ?name = "case path of None \<Rightarrow> [] | Some p \<Rightarrow> snd p"
  let ?s2 = "emit (OS (Call_open ?name)) s1"
  let ?s3 = "\<lambda>fd. emit (OS (Call_read fd (n - 1))) ?s2"
  have free: "quiet neutral s (c_free p t)" if "allocs neutral (set_option p) s t" for p t
    using that assms(2) by (rule allocs_free_all) simp
  have s2: "allocs neutral (set_option ?b) s ?s2" using a by (auto intro!: allocs_emit)
  show ?thesis
  proof (cases "r \<noteq> 0 \<or> env_open env (trace s1) ?name < 0")
    case True
    with assms g a show ?thesis
      by (auto simp: read_cert_key_def Let_def intro!: free allocs_emit split: if_splits)
  next
    case False
    let ?fd = "env_open env (trace s1) ?name"
    obtain k bs where rd: "env_read env (trace ?s2) ?fd (n - 1) = (k, bs)"
      by (cases "env_read env (trace ?s2) ?fd (n - 1)")
    have k: "k \<le> int (n - 1)" using assms(5) rd by (metis fst_conv)
    then have bs: "length (take (nat k) bs) \<le> length buf" using assms(3) by simp
    show ?thesis
    proof (cases "k \<le> 0")
      case True
      with False assms g rd a show ?thesis
        by (auto simp: read_cert_key_def Let_def intro!: free allocs_emit)
    next
      case k0: False
      have "length (write_bytes buf (take (nat k) bs)) = n"
        using bs assms(3) by simp
      with False k0 assms g rd a bs show ?thesis
        by (auto simp: read_cert_key_def Let_def store_bytes_ok store_nul_ok
            intro!: free allocs_emit)
    qed
  qed
qed

text \<open>
  A branch of the switch is quiet, keeps the block's length and leaves a NUL in it, so the
  value is a terminated string inside its block.
\<close>

definition branch_ok ::
  "char list \<Rightarrow> 's log_state_scheme \<Rightarrow> bool \<times> char list \<times> 's log_state_scheme \<Rightarrow> bool" where
  "branch_ok buf s r \<longleftrightarrow>
     (case r of (ok, buf', s') \<Rightarrow>
        quiet neutral s s' \<and> length buf' = length buf \<and> (ok \<longrightarrow> NUL \<in> set buf'))"

lemma branch_ok_cache:
  assumes "0 < n" "length buf = n + 1"
  shows "branch_ok buf s (config_from_cache v buf n s)"
proof (cases v)
  case None
  then show ?thesis by (simp add: branch_ok_def config_from_cache_def)
next
  case (Some src)
  have "NUL \<in> set ((strncpy buf src n)[n - 1 := NUL])"
    using assms by (intro set_update_memI) simp
  with Some assms show ?thesis
    by (simp add: branch_ok_def config_from_cache_def store_nul_ok Let_def)
qed

lemma branch_ok_sysmgr:
  assumes "esf_contract env" "length buf = n + 1" "last buf = NUL"
  shows "branch_ok buf s (config_from_sysmgr env item line err buf n s)"
proof -
  obtain r bs where g: "env_SystemManagerGet env (trace s) item n = (r, bs)"
    by (cases "env_SystemManagerGet env (trace s) item n")
  then have l: "length bs \<le> n" using assms(1) by (metis esf_contract_def snd_conv)
  have "last buf \<in> set (drop (length bs) buf)"
    using l assms(2) by (metis Suc_eq_plus1 last_drop last_in_set drop_eq_Nil le_imp_less_Suc not_less)
  then have "NUL \<in> set (write_bytes buf bs)" using assms(3) by (simp add: write_bytes_def)
  moreover have "store_bytes buf bs t = (write_bytes buf bs, t)" for t :: "'b log_state_scheme"
    using l assms(2) by (simp add: store_bytes_ok)
  ultimately show ?thesis
    using l assms(2) g
    by (auto simp: branch_ok_def config_from_sysmgr_def EsfSystemManagerGet_def Let_def
        intro!: allocs_emit)
qed

lemma branch_ok_cert_key:
  assumes "esf_contract env" "length buf = n + 1" "heap_wf s"
  shows "branch_ok buf s (config_from_cert_key env key buf n s)"
proof -
  obtain r buf' s' where g: "read_cert_key env key buf (n + 1) s = (r, buf', s')"
    by (cases "read_cert_key env key buf (n + 1) s")
  from read_cert_key_quiet [OF g assms(3,2)] assms(1)
  have q: "quiet neutral s s'" "length buf' = n + 1" and "r = 0 \<longrightarrow> buf' ! n = NUL"
    by (auto simp: esf_contract_def)
  then have "r = 0 \<longrightarrow> NUL \<in> set buf'"
    using nth_mem [of n buf'] by (metis less_add_one)
  then show ?thesis
    using g q assms(2)
    by (auto simp: branch_ok_def config_from_cert_key_def intro!: allocs_emit)
qed

lemma config_max_size_pos:
  "esf_contract env \<Longrightarrow> config_max_size env key = Some n \<Longrightarrow> 0 < n"
  by (auto simp: config_max_size_def g_max_sizes_designators_def esf_contract_def
      MQTT_TLS_CLIENT_CERT_MAX_SIZE_def MQTT_TLS_CLIENT_KEY_MAX_SIZE_def split: if_splits)

lemma read_config_switch_ok:
  assumes "esf_contract env" "heap_wf s" "length buf = n + 1" "last buf = NUL"
    and "config_max_size env key = Some n \<or> config_max_size env key = None"
  shows "branch_ok buf s (read_config_switch env key buf n s)"
proof (cases "config_max_size env key")
  case None
  then have "read_config_switch env key buf n s = (False, buf, s)"
    by (cases key) (auto simp: config_max_size_def g_max_sizes_designators_def read_config_switch_def)
  then show ?thesis by (simp add: branch_ok_def)
next
  case (Some m)
  with assms(5) have "0 < n" using config_max_size_pos [OF assms(1)] by auto
  then show ?thesis
    unfolding read_config_switch_def Let_def
    by (cases key) (simp_all add: branch_ok_cache branch_ok_sysmgr branch_ok_cert_key assms,
      simp_all add: branch_ok_def)
qed

text \<open>
  Reading a key leaves the globals and every other block alone. When it fails nothing stays
  allocated; when it succeeds exactly the value and the configuration record do.
\<close>

lemma read_config_cases:
  assumes "esf_contract env" "heap_wf s" "evp_agent_esf_read_config env key s = (r, s')"
  obtains (fail) "r = None" "quiet neutral s s'"
  | (ok) cfg n where "r = Some cfg" "config_max_size env key = Some n"
      "allocs neutral {cfg_value_block cfg, cfg_block cfg} s s'"
      "cfg_value_block cfg \<noteq> cfg_block cfg" "cfg_key cfg = key" "length (cfg_value cfg) = n + 1"
      "NUL \<in> set (cfg_value cfg)" "cfg_size cfg = length (cstr (cfg_value cfg)) + 1"
proof (cases "config_key_value env key < length (g_max_sizes env)")
  case False
  with assms(3) show ?thesis
    by (intro fail) (auto simp: evp_agent_esf_read_config_def intro: quiet_emit)
next
  case True
  let ?n = "g_max_sizes env ! config_key_value env key"
  let ?buf = "replicate (?n + 1) NUL"
  have inj: "inj (config_key_value env)" using assms(1) by (simp add: esf_contract_def)
  have n: "config_max_size env key = Some ?n \<or> config_max_size env key = None"
    using g_max_sizes_lookup(1) [OF inj] by (cases "config_max_size env key") auto
  obtain p s1 where m: "c_malloc env (Alloc_config_buf (?n + 1)) s = (p, s1)"
    by (cases "c_malloc env (Alloc_config_buf (?n + 1)) s")
  have a: "allocs neutral (set_option p) s s1" using m by (rule allocs_malloc) simp
  show ?thesis
  proof (cases p)
    case None
    with assms(3) True m a show ?thesis
      by (intro fail) (auto simp: evp_agent_esf_read_config_def Let_def intro!: allocs_emit)
  next
    case (Some b)
    obtain ok buf s2 where sw: "read_config_switch env key ?buf ?n s1 = (ok, buf, s2)"
      by (cases "read_config_switch env key ?buf ?n s1")
    have "branch_ok ?buf s1 (ok, buf, s2)"
      unfolding sw [symmetric] using assms(1,2) a n
      by (intro read_config_switch_ok) (auto simp: allocs_heap_wf)
    then have q: "quiet neutral s1 s2" and len: "length buf = ?n + 1" and nul: "ok \<longrightarrow> NUL \<in> set buf"
      by (auto simp: branch_ok_def)
    have a2: "allocs neutral {b} s s2" using allocs_quiet [OF a q] Some by simp
    obtain c s3 where m2: "c_malloc env Alloc_config s2 = (c, s3)"
      by (cases "c_malloc env Alloc_config s2")
    have "allocs neutral (set_option c) s2 s3" using m2 by (rule allocs_malloc) simp
    with a2 have a3: "allocs neutral ({b} \<union> set_option c) s s3" by (rule allocs_trans)
    have fr: "quiet neutral s (c_free (Some b) t)" if "allocs neutral {b} s t" for t
      using allocs_free_all [of neutral "Some b" s t] that assms(2) by simp
    show ?thesis
    proof (cases "ok \<and> c \<noteq> None")
      case False
      with assms(3) True m Some sw m2 a2 a3 show ?thesis
        by (intro fail) (auto simp: evp_agent_esf_read_config_def Let_def split: if_splits
            intro!: fr allocs_emit)
    next
      case okc: True
      then obtain cb where c: "c = Some cb" by blast
      have "config_max_size env key \<noteq> None"
      proof
        assume "config_max_size env key = None"
        then have "fst (read_config_switch env key ?buf ?n s1) = False"
          by (cases key) (auto simp: config_max_size_def g_max_sizes_designators_def
              read_config_switch_def)
        with sw okc show False by simp
      qed
      moreover have "b \<noteq> cb"
        using a2 m2 c allocs_facts(5) [OF a2] by (auto simp: c_malloc_Some)
      ultimately show ?thesis
        using assms(3) True m Some sw m2 a3 okc c n len nul
        by (intro ok [of "\<lparr>cfg_block = cb, cfg_key = key, cfg_value_block = b, cfg_value = buf,
              cfg_size = length (cstr buf) + 1\<rparr>" ?n])
          (auto simp: evp_agent_esf_read_config_def Let_def insert_commute)
    qed
  qed
qed

section \<open>Ownership of the proxy cache\<close>

definition cache_ptrs :: "proxy_cache \<Rightarrow> nat list" where
  "cache_ptrs c = concat (map (\<lambda>h. case h of None \<Rightarrow> [] | Some p \<Rightarrow> [fst p])
     [pc_host c, pc_username c, pc_password c])"

text \<open>
  \<open>owns s D s'\<close>: apart from the cache itself, \<open>s'\<close> differs from \<open>s\<close> by neutral calls and by
  new blocks, which are those of \<open>D\<close> and one for each string of the cache.
\<close>

definition owns :: "'s esf_state_scheme \<Rightarrow> nat set \<Rightarrow> 's esf_state_scheme \<Rightarrow> bool" where
  "owns s D s' \<longleftrightarrow>
     allocs neutral (D \<union> set (cache_ptrs (g_proxy_cache s'))) s
       (s'\<lparr>g_proxy_cache := g_proxy_cache s\<rparr>) \<and>
     distinct (cache_ptrs (g_proxy_cache s')) \<and> D \<inter> set (cache_ptrs (g_proxy_cache s')) = {}"

lemma allocs_cache_update:
  "allocs P B s t \<Longrightarrow> allocs P B (s\<lparr>g_proxy_cache := c\<rparr>) (t\<lparr>g_proxy_cache := c\<rparr>)"
  by (auto elim!: allocsE intro!: allocsI)

lemma allocs_esf_fields: "allocs P B s t \<Longrightarrow> g_proxy_cache t = g_proxy_cache s"
  by (auto elim: allocsE)

lemma owns_quiet:
  assumes "owns s D s'" "quiet neutral s' t"
  shows "owns s D t"
proof -
  have c: "g_proxy_cache t = g_proxy_cache s'" using assms(2) by (rule allocs_esf_fields)
  from allocs_cache_update [OF assms(2), of "g_proxy_cache s"] assms(1) c show ?thesis
    unfolding owns_def by (auto intro: allocs_quiet)
qed

lemma owns_emit: "owns s D s' \<Longrightarrow> neutral c \<Longrightarrow> owns s D (emit c s')"
  by (rule owns_quiet [OF _ quiet_emit])

lemma owns_set_cache:
  "owns s D s' \<Longrightarrow> cache_ptrs c = cache_ptrs (g_proxy_cache s') \<Longrightarrow> owns s D (s'\<lparr>g_proxy_cache := c\<rparr>)"
  by (simp add: owns_def)

text \<open>Storing a fresh copy in an empty slot of the cache.\<close>

lemma owns_strdup:
  assumes "owns s D s'" "c_strdup env blk s' = (h, s1)" "NUL \<in> set blk"
    and "set (cache_ptrs c) = set_option (map_option fst h) \<union> set (cache_ptrs (g_proxy_cache s'))"
    and "set_option (map_option fst h) \<inter> set (cache_ptrs (g_proxy_cache s')) = {} \<Longrightarrow>
      distinct (cache_ptrs (g_proxy_cache s')) \<Longrightarrow> distinct (cache_ptrs c)"
  shows "owns s D (s1\<lparr>g_proxy_cache := c\<rparr>)"
proof -
  let ?old = "set (cache_ptrs (g_proxy_cache s'))" and ?new = "set_option (map_option fst h)"
  obtain p where m: "c_malloc env (Alloc_strdup (cstr blk)) s' = (p, s1)"
    and h: "h = map_option (\<lambda>b. (b, cstr blk)) p"
    using assms(2,3) by (cases "c_malloc env (Alloc_strdup (cstr blk)) s'") (auto simp: c_strdup_def)
  have new: "?new = set_option p" by (auto simp: h)
  have "allocs neutral ?new s' s1" unfolding new using m by (rule allocs_malloc) simp
  from allocs_cache_update [OF this, of "g_proxy_cache s"]
  have a: "allocs neutral ?new (s'\<lparr>g_proxy_cache := g_proxy_cache s\<rparr>) (s1\<lparr>g_proxy_cache := g_proxy_cache s\<rparr>)" .
  have o: "allocs neutral (D \<union> ?old) s (s'\<lparr>g_proxy_cache := g_proxy_cache s\<rparr>)"
    "distinct (cache_ptrs (g_proxy_cache s'))" "D \<inter> ?old = {}"
    using assms(1) by (auto simp: owns_def)
  have "?new \<inter> (D \<union> ?old) = {}"
    using allocs_facts(5) [OF o(1)] allocs_facts(5) [OF a] by fastforce
  moreover have "D \<union> (?new \<union> ?old) = (D \<union> ?old) \<union> ?new" by blast
  ultimately show ?thesis
    using allocs_trans [OF o(1) a] o assms(4,5) unfolding owns_def by auto
qed

lemma c_free_cache_update:
  "(c_free p s)\<lparr>g_proxy_cache := c\<rparr> = c_free p (s\<lparr>g_proxy_cache := c\<rparr>)"
  "g_proxy_cache (c_free p s) = g_proxy_cache s"
  by (auto simp: c_free_def emit_def undefined_behaviour_def split: option.splits)

lemma owns_free:
  assumes "owns s D s'" "heap_wf s" "set_option p \<subseteq> D"
  shows "owns s (D - set_option p) (c_free p s')"
proof -
  let ?B = "D \<union> set (cache_ptrs (g_proxy_cache s'))"
  have "allocs neutral (?B - set_option p) s (c_free p (s'\<lparr>g_proxy_cache := g_proxy_cache s\<rparr>))"
    using assms by (intro allocs_free) (auto simp: owns_def)
  moreover have "?B - set_option p = (D - set_option p) \<union> set (cache_ptrs (g_proxy_cache s'))"
    using assms(1,3) by (auto simp: owns_def)
  ultimately show ?thesis
    using assms(1) by (auto simp: owns_def c_free_cache_update)
qed

text \<open>Releasing one string of the cache, and the slot that held it.\<close>

lemma owns_release:
  assumes "owns s D s'" "heap_wf s" "b \<in> set (cache_ptrs (g_proxy_cache s'))"
    and "cache_ptrs c = remove1 b (cache_ptrs (g_proxy_cache s'))"
  shows "owns s D ((c_free (Some b) s')\<lparr>g_proxy_cache := c\<rparr>)"
proof -
  let ?B = "D \<union> set (cache_ptrs (g_proxy_cache s'))"
  have d: "distinct (cache_ptrs (g_proxy_cache s'))" "D \<inter> set (cache_ptrs (g_proxy_cache s')) = {}"
    using assms(1) by (auto simp: owns_def)
  have "allocs neutral (?B - {b}) s (c_free (Some b) (s'\<lparr>g_proxy_cache := g_proxy_cache s\<rparr>))"
    using assms allocs_free [of neutral ?B s _ "Some b"] by (auto simp: owns_def)
  moreover have "?B - {b} = D \<union> set (cache_ptrs c)"
    using d assms(3) by (auto simp: assms(4) set_remove1_eq)
  ultimately show ?thesis
    using d by (auto simp: owns_def c_free_cache_update assms(4) dest: notin_set_remove1)
qed

lemma deinit_owns:
  assumes "owns s D s'" "heap_wf s"
  shows "owns s D (evp_agent_esf_deinit_proxy_cache s')"
    and "g_proxy_cache (evp_agent_esf_deinit_proxy_cache s') =
      (g_proxy_cache s')\<lparr>pc_host := None, pc_username := None, pc_password := None\<rparr>"
proof -
  define s1 where "s1 = (case pc_host (g_proxy_cache s') of None \<Rightarrow> s'
    | Some h \<Rightarrow> (c_free (Some (fst h)) s')\<lparr>g_proxy_cache := (g_proxy_cache s')\<lparr>pc_host := None\<rparr>\<rparr>)"
  have c1: "g_proxy_cache s1 = (g_proxy_cache s')\<lparr>pc_host := None\<rparr>"
    by (cases "g_proxy_cache s'") (auto simp: s1_def split: option.splits)
  have o1: "owns s D s1"
    using assms unfolding s1_def by (auto split: option.splits intro!: owns_release simp: cache_ptrs_def)
  define s2 where "s2 = (case pc_username (g_proxy_cache s1) of None \<Rightarrow> s1
    | Some h \<Rightarrow> (c_free (Some (fst h)) s1)\<lparr>g_proxy_cache := (g_proxy_cache s1)\<lparr>pc_username := None\<rparr>\<rparr>)"
  have c2: "g_proxy_cache s2 = (g_proxy_cache s')\<lparr>pc_host := None, pc_username := None\<rparr>"
    using c1 by (cases "g_proxy_cache s'") (auto simp: s2_def split: option.splits)
  have o2: "owns s D s2"
    using o1 assms(2) c1 unfolding s2_def
    by (auto split: option.splits intro!: owns_release simp: cache_ptrs_def)
  define s3 where "s3 = (case pc_password (g_proxy_cache s2) of None \<Rightarrow> s2
    | Some h \<Rightarrow> (c_free (Some (fst h)) s2)\<lparr>g_proxy_cache := (g_proxy_cache s2)\<lparr>pc_password := None\<rparr>\<rparr>)"
  have c3: "g_proxy_cache s3 =
      (g_proxy_cache s')\<lparr>pc_host := None, pc_username := None, pc_password := None\<rparr>"
    using c2 by (cases "g_proxy_cache s'") (auto simp: s3_def split: option.splits)
  have o3: "owns s D s3"
    using o2 assms(2) c2 unfolding s3_def
    by (auto split: option.splits intro!: owns_release simp: cache_ptrs_def)
  have eq: "evp_agent_esf_deinit_proxy_cache s' = s3"
    unfolding evp_agent_esf_deinit_proxy_cache_def Let_def s3_def s2_def s1_def by (rule refl)
  show "owns s D (evp_agent_esf_deinit_proxy_cache s')"
    "g_proxy_cache (evp_agent_esf_deinit_proxy_cache s') =
      (g_proxy_cache s')\<lparr>pc_host := None, pc_username := None, pc_password := None\<rparr>"
    using o3 c3 by (simp_all add: eq)
qed

section \<open>Filling the proxy cache\<close>

definition nonempty :: "string \<Rightarrow> string option" where
  "nonempty x = (if x = [] then None else Some x)"

text \<open>The strings a cache holds: host, port, user name, password.\<close>

definition cache_view :: "proxy_cache \<Rightarrow> string option \<times> string \<times> string option \<times> string option" where
  "cache_view c = (map_option snd (pc_host c), pc_port c, map_option snd (pc_username c),
     map_option snd (pc_password c))"

lemma c_format_dec: "c_format ''%d'' [FInt i] = Some (int_dec i)"
  by (simp add: directives_def convert_def convert_int_def)

lemma c_strdup_cases:
  assumes "c_strdup env blk s = (h, s1)"
  shows "h = None \<or> (\<exists>b. h = Some (b, cstr blk))" "g_proxy_cache s1 = g_proxy_cache s"
  using assms
  by (auto simp: c_strdup_def c_malloc_def emit_def undefined_behaviour_def Let_def split: if_splits)

text \<open>The port as \<open>snprintf\<close> leaves it in the array of the cache.\<close>

definition port_text :: "'e esf_env_scheme \<Rightarrow> proxy_param \<Rightarrow> string" where
  "port_text env prm =
     vsnprintf_text (env_size env ESF_NETWORK_MANAGER_PROXY_PORT_LEN) ''%d'' [FInt (pp_port prm)]"

lemma save_proxy_host_owns:
  assumes "owns s D s'" "pc_host (g_proxy_cache s') = None" "save_proxy_host env prm s' = (e, t)"
    and "NUL \<in> set (pp_url prm)"
  shows "owns s D t"
    and "\<exists>h p. g_proxy_cache t = (g_proxy_cache s')\<lparr>pc_host := h, pc_port := p\<rparr> \<and>
      p \<in> {pc_port (g_proxy_cache s'), port_text env prm} \<and>
      (e = None \<longrightarrow> map_option snd h = nonempty (cstr (pp_url prm)) \<and>
        p = (if cstr (pp_url prm) = [] then pc_port (g_proxy_cache s') else int_dec (pp_port prm)))"
    and "e \<in> {None, Some (- ENOMEM), Some (- ERANGE)}"
    and "e = Some (- ERANGE) \<Longrightarrow> pc_port (g_proxy_cache t) = port_text env prm"
proof -
  obtain h s1 where d: "c_strdup env (pp_url prm) s' = (h, s1)"
    by (cases "c_strdup env (pp_url prm) s'")
  note hc = c_strdup_cases [OF d]
  let ?n = "env_size env ESF_NETWORK_MANAGER_PROXY_PORT_LEN"
  have o1: "owns s D (s1\<lparr>g_proxy_cache := (g_proxy_cache s')\<lparr>pc_host := h\<rparr>\<rparr>)"
    using hc(1) assms(2) by (intro owns_strdup [OF assms(1) d assms(4)]) (auto simp: cache_ptrs_def)
  then have o2: "owns s D (s1\<lparr>g_proxy_cache := (g_proxy_cache s')\<lparr>pc_host := h, pc_port := p\<rparr>\<rparr>)" for p
    using owns_set_cache [OF o1, of "(g_proxy_cache s')\<lparr>pc_host := h, pc_port := p\<rparr>"]
    by (simp add: cache_ptrs_def)
  have len: "vsnprintf_ret ''%d'' [FInt i] < 0 \<or> int ?n \<le> vsnprintf_ret ''%d'' [FInt i] \<or>
      vsnprintf_text ?n ''%d'' [FInt i] = int_dec i" for i
    unfolding vsnprintf_ret_def vsnprintf_text_def c_format_dec by auto
  show "owns s D t"
    using assms(1,3) d o1 o2 hc
    by (auto simp: save_proxy_host_def Let_def split: if_splits intro!: owns_emit)
  show "e \<in> {None, Some (- ENOMEM), Some (- ERANGE)}"
    using assms(3) d by (auto simp: save_proxy_host_def Let_def split: if_splits)
  show "pc_port (g_proxy_cache t) = port_text env prm" if "e = Some (- ERANGE)"
    using assms(3) d that by (auto simp: save_proxy_host_def Let_def port_text_def emit_def split: if_splits)
  show "\<exists>h p. g_proxy_cache t = (g_proxy_cache s')\<lparr>pc_host := h, pc_port := p\<rparr> \<and>
      p \<in> {pc_port (g_proxy_cache s'), port_text env prm} \<and>
      (e = None \<longrightarrow> map_option snd h = nonempty (cstr (pp_url prm)) \<and>
        p = (if cstr (pp_url prm) = [] then pc_port (g_proxy_cache s') else int_dec (pp_port prm)))"
  proof (cases "cstr (pp_url prm) = []")
    case True
    with assms(2,3) show ?thesis
      by (intro exI [of _ None] exI [of _ "pc_port (g_proxy_cache s')"])
        (cases "g_proxy_cache s'", auto simp: save_proxy_host_def nonempty_def)
  next
    case False
    with assms(3) d hc len [of "pp_port prm"] show ?thesis
      by (cases "g_proxy_cache s'")
        (auto simp: save_proxy_host_def Let_def nonempty_def emit_def port_text_def split: if_splits)
  qed
qed

lemma save_proxy_username_owns:
  assumes "owns s D s'" "pc_username (g_proxy_cache s') = None"
    and "save_proxy_username env prm s' = (e, t)" "NUL \<in> set (pp_username prm)"
  shows "owns s D t"
    and "\<exists>h. g_proxy_cache t = (g_proxy_cache s')\<lparr>pc_username := h\<rparr> \<and>
      (e = None \<longrightarrow> map_option snd h = nonempty (cstr (pp_username prm)))"
    and "e \<in> {None, Some (- ENOMEM)}"
proof -
  obtain h s1 where d: "c_strdup env (pp_username prm) s' = (h, s1)"
    by (cases "c_strdup env (pp_username prm) s'")
  note hc = c_strdup_cases [OF d]
  have o1: "owns s D (s1\<lparr>g_proxy_cache := (g_proxy_cache s')\<lparr>pc_username := h\<rparr>\<rparr>)"
    using hc(1) assms(2) by (intro owns_strdup [OF assms(1) d assms(4)]) (auto simp: cache_ptrs_def)
  show "owns s D t" "e \<in> {None, Some (- ENOMEM)}"
    using assms(1,3) d o1 hc
    by (auto simp: save_proxy_username_def Let_def split: if_splits intro!: owns_emit)
  show "\<exists>h. g_proxy_cache t = (g_proxy_cache s')\<lparr>pc_username := h\<rparr> \<and>
      (e = None \<longrightarrow> map_option snd h = nonempty (cstr (pp_username prm)))"
    using assms(2,3) d hc
    by (cases "g_proxy_cache s'")
      (auto simp: save_proxy_username_def Let_def nonempty_def emit_def split: if_splits)
qed

lemma save_proxy_password_owns:
  assumes "owns s D s'" "pc_password (g_proxy_cache s') = None"
    and "save_proxy_password env prm s' = (e, t)" "NUL \<in> set (pp_password prm)"
  shows "owns s D t"
    and "\<exists>h. g_proxy_cache t = (g_proxy_cache s')\<lparr>pc_password := h\<rparr> \<and>
      (e = None \<longrightarrow> map_option snd h = nonempty (cstr (pp_password prm)))"
    and "e \<in> {None, Some (- ENOMEM)}"
proof -
  obtain h s1 where d: "c_strdup env (pp_password prm) s' = (h, s1)"
    by (cases "c_strdup env (pp_password prm) s'")
  note hc = c_strdup_cases [OF d]
  have o1: "owns s D (s1\<lparr>g_proxy_cache := (g_proxy_cache s')\<lparr>pc_password := h\<rparr>\<rparr>)"
    using hc(1) assms(2) by (intro owns_strdup [OF assms(1) d assms(4)]) (auto simp: cache_ptrs_def)
  show "owns s D t" "e \<in> {None, Some (- ENOMEM)}"
    using assms(1,3) d o1 hc
    by (auto simp: save_proxy_password_def Let_def split: if_splits intro!: owns_emit)
  show "\<exists>h. g_proxy_cache t = (g_proxy_cache s')\<lparr>pc_password := h\<rparr> \<and>
      (e = None \<longrightarrow> map_option snd h = nonempty (cstr (pp_password prm)))"
    using assms(2,3) d hc
    by (cases "g_proxy_cache s'")
      (auto simp: save_proxy_password_def Let_def nonempty_def emit_def split: if_splits)
qed

text \<open>The cache before initialisation: no strings; the port text may be left from before.\<close>

definition cache_empty :: "proxy_cache \<Rightarrow> bool" where
  "cache_empty c \<longleftrightarrow> pc_host c = None \<and> pc_username c = None \<and> pc_password c = None"

definition expected_view ::
  "proxy_param \<Rightarrow> string \<Rightarrow> string option \<times> string \<times> string option \<times> string option" where
  "expected_view prm old_port =
     (nonempty (cstr (pp_url prm)),
      if cstr (pp_url prm) = [] then old_port else int_dec (pp_port prm),
      nonempty (cstr (pp_username prm)), nonempty (cstr (pp_password prm)))"

lemma cache_empty_ptrs: "cache_empty c \<Longrightarrow> cache_ptrs c = []"
  by (simp add: cache_empty_def cache_ptrs_def)

lemma init_proxy_cache_load_refused:
  assumes "env_LoadParameter env (trace s) = (r, prm)" "r \<noteq> kEsfNetworkManagerResultSuccess env"
  shows "init_proxy_cache_load env s = (- EIO, emit (EVP_AGENT_ERR ''esf.c'' 120
      ''EsfNetworkManagerLoadParameter failed (%u)'' [FInt r])
      (emit (ESF (Call_EsfNetworkManagerLoadParameter proxy_mask)) s))"
  using assms by (simp add: init_proxy_cache_load_def Let_def)

lemma init_proxy_cache_load_saves:
  assumes "owns s D s'" "cache_empty (g_proxy_cache s')"
    and "env_LoadParameter env (trace s') = (kEsfNetworkManagerResultSuccess env, prm)" "proxy_param_ok prm"
    and "init_proxy_cache_load env s' = (ret, t)"
  shows "owns s D t"
    and "ret \<in> {kEsfNetworkManagerResultSuccess env, - ENOMEM, - ERANGE}"
    and "ret \<notin> {- ENOMEM, - ERANGE} \<Longrightarrow>
      cache_view (g_proxy_cache t) = expected_view prm (pc_port (g_proxy_cache s'))"
    and "ret \<in> {- ENOMEM, - ERANGE} \<Longrightarrow>
      pc_port (g_proxy_cache t) \<in> {pc_port (g_proxy_cache s'), port_text env prm}"
    and "ret = - ERANGE \<Longrightarrow> kEsfNetworkManagerResultSuccess env \<noteq> - ERANGE \<Longrightarrow>
      pc_port (g_proxy_cache t) = port_text env prm"
proof -
  let ?s1 = "emit (ESF (Call_EsfNetworkManagerLoadParameter proxy_mask)) s'"
  have o1: "owns s D ?s1" using assms(1) by (rule owns_emit) simp
  have c1: "g_proxy_cache ?s1 = g_proxy_cache s'" by (simp add: emit_def)
  have nul: "NUL \<in> set (pp_url prm)" "NUL \<in> set (pp_username prm)" "NUL \<in> set (pp_password prm)"
    using assms(4) by (simp_all add: proxy_param_ok_def)
  from assms(2) have em: "pc_host (g_proxy_cache ?s1) = None"
    "pc_username (g_proxy_cache s') = None" "pc_password (g_proxy_cache s') = None"
    by (auto simp: cache_empty_def c1)
  obtain e2 s2 where h: "save_proxy_host env prm ?s1 = (e2, s2)"
    by (cases "save_proxy_host env prm ?s1")
  note H = save_proxy_host_owns [OF o1 em(1) h nul(1)]
  obtain e3 s3 where u: "save_proxy_username env prm s2 = (e3, s3)"
    by (cases "save_proxy_username env prm s2")
  obtain e4 s4 where w: "save_proxy_password env prm s3 = (e4, s4)"
    by (cases "save_proxy_password env prm s3")
  obtain hh p where c2: "g_proxy_cache s2 = (g_proxy_cache s')\<lparr>pc_host := hh, pc_port := p\<rparr>"
    and p: "p \<in> {pc_port (g_proxy_cache s'), port_text env prm}"
    and v2: "e2 = None \<longrightarrow> map_option snd hh = nonempty (cstr (pp_url prm)) \<and>
      p = (if cstr (pp_url prm) = [] then pc_port (g_proxy_cache s') else int_dec (pp_port prm))"
    using H(2) unfolding c1 by blast
  have "pc_username (g_proxy_cache s2) = None" using c2 em by simp
  note U = save_proxy_username_owns [OF H(1) this u nul(2)]
  obtain hu where c3: "g_proxy_cache s3 = (g_proxy_cache s2)\<lparr>pc_username := hu\<rparr>"
    and v3: "e3 = None \<longrightarrow> map_option snd hu = nonempty (cstr (pp_username prm))" using U(2) by blast
  have "pc_password (g_proxy_cache s3) = None" using c2 c3 em by simp
  note W = save_proxy_password_owns [OF U(1) this w nul(3)]
  obtain hw where c4: "g_proxy_cache s4 = (g_proxy_cache s3)\<lparr>pc_password := hw\<rparr>"
    and v4: "e4 = None \<longrightarrow> map_option snd hw = nonempty (cstr (pp_password prm))" using W(2) by blast
  have load: "(ret, t) = (case e2 of Some e \<Rightarrow> (e, s2) | None \<Rightarrow> (case e3 of Some e \<Rightarrow> (e, s3)
      | None \<Rightarrow> (case e4 of Some e \<Rightarrow> (e, s4) | None \<Rightarrow> (kEsfNetworkManagerResultSuccess env, s4))))"
    using assms(5) u w unfolding init_proxy_cache_load_def assms(3) Let_def prod.case h
    by (auto split: option.splits)
  show "owns s D t"
    using load H(1) U(1) W(1) by (auto split: option.splits)
  show "ret \<in> {kEsfNetworkManagerResultSuccess env, - ENOMEM, - ERANGE}"
    using load H(3) U(3) W(3) by (auto split: option.splits)
  show "cache_view (g_proxy_cache t) = expected_view prm (pc_port (g_proxy_cache s'))"
    if "ret \<notin> {- ENOMEM, - ERANGE}"
    using load H(3) U(3) W(3) that c2 c3 c4 v2 v3 v4
    by (auto simp: cache_view_def expected_view_def split: if_splits option.splits)
  show "pc_port (g_proxy_cache t) \<in> {pc_port (g_proxy_cache s'), port_text env prm}"
    using load c2 c3 c4 p by (auto split: option.splits)
  show "pc_port (g_proxy_cache t) = port_text env prm"
    if "ret = - ERANGE" "kEsfNetworkManagerResultSuccess env \<noteq> - ERANGE"
    using load H(4) U(3) W(3) that by (auto simp: ENOMEM_def ERANGE_def split: option.splits)
qed

text \<open>What the initialisation leaves in the port array when it fails.\<close>

definition failed_port_ok :: "'e esf_env_scheme \<Rightarrow> proxy_param \<Rightarrow> string \<Rightarrow> int \<Rightarrow> string \<Rightarrow> bool" where
  "failed_port_ok env prm old ret new \<longleftrightarrow>
     (if ret = - EIO then new = old
      else if ret = - ERANGE then new = port_text env prm
      else ret = - ENOMEM \<and> new \<in> {old, port_text env prm})"

lemma init_proxy_cache_load_owns:
  assumes "owns s D s'" "cache_empty (g_proxy_cache s')" "esf_contract env"
    and "env_LoadParameter env (trace s') = (r, prm)"
    and "init_proxy_cache_load env s' = (ret, t)"
  shows "owns s D t"
    and "ret \<in> {kEsfNetworkManagerResultSuccess env, - EIO, - ENOMEM, - ERANGE}"
    and "ret \<notin> {- EIO, - ENOMEM, - ERANGE} \<Longrightarrow>
      cache_view (g_proxy_cache t) = expected_view prm (pc_port (g_proxy_cache s'))"
    and "ret \<noteq> 0 \<Longrightarrow> kEsfNetworkManagerResultSuccess env = 0 \<Longrightarrow>
      failed_port_ok env prm (pc_port (g_proxy_cache s')) ret (pc_port (g_proxy_cache t))"
proof -
  let ?P = "owns s D t \<and> ret \<in> {kEsfNetworkManagerResultSuccess env, - EIO, - ENOMEM, - ERANGE} \<and>
    (ret \<notin> {- EIO, - ENOMEM, - ERANGE} \<longrightarrow>
      cache_view (g_proxy_cache t) = expected_view prm (pc_port (g_proxy_cache s'))) \<and>
    (ret \<noteq> 0 \<longrightarrow> kEsfNetworkManagerResultSuccess env = 0 \<longrightarrow>
      failed_port_ok env prm (pc_port (g_proxy_cache s')) ret (pc_port (g_proxy_cache t)))"
  have ?P
  proof (cases "r = kEsfNetworkManagerResultSuccess env")
    case False
    let ?t = "emit (EVP_AGENT_ERR ''esf.c'' 120 ''EsfNetworkManagerLoadParameter failed (%u)'' [FInt r])
      (emit (ESF (Call_EsfNetworkManagerLoadParameter proxy_mask)) s')"
    have "owns s D ?t" using assms(1) by (intro owns_emit) simp_all
    moreover have "g_proxy_cache ?t = g_proxy_cache s'" by (simp add: emit_def)
    ultimately show ?thesis
      using init_proxy_cache_load_refused [OF assms(4) False] assms(5) by (simp add: failed_port_ok_def)
  next
    case True
    have "proxy_param_ok prm"
      using assms(3,4) True unfolding esf_contract_def by (metis fst_conv snd_conv)
    note S = init_proxy_cache_load_saves [OF assms(1,2) assms(4) [unfolded True] this assms(5)]
    have "failed_port_ok env prm (pc_port (g_proxy_cache s')) ret (pc_port (g_proxy_cache t))"
      if "ret \<noteq> 0" "kEsfNetworkManagerResultSuccess env = 0"
      using S(2,4,5) that by (auto simp: failed_port_ok_def EIO_def ENOMEM_def ERANGE_def)
    with S(1,2,3) show ?thesis by auto
  qed
  then show "owns s D t" "ret \<in> {kEsfNetworkManagerResultSuccess env, - EIO, - ENOMEM, - ERANGE}"
    "ret \<notin> {- EIO, - ENOMEM, - ERANGE} \<Longrightarrow>
      cache_view (g_proxy_cache t) = expected_view prm (pc_port (g_proxy_cache s'))"
    "ret \<noteq> 0 \<Longrightarrow> kEsfNetworkManagerResultSuccess env = 0 \<Longrightarrow>
      failed_port_ok env prm (pc_port (g_proxy_cache s')) ret (pc_port (g_proxy_cache t))"
    by blast+
qed

lemma init_proxy_cache_owns:
  assumes "heap_wf s" "cache_empty (g_proxy_cache s)" "esf_contract env"
    and "evp_agent_esf_init_proxy_cache env s = (ret, t)"
  shows "owns s {} t"
    and "ret \<in> {kEsfNetworkManagerResultSuccess env, - EIO, - ENOMEM, - ERANGE}"
    and "ret \<noteq> 0 \<Longrightarrow> cache_empty (g_proxy_cache t)"
    and "ret = 0 \<Longrightarrow> cache_view (g_proxy_cache t) = expected_view
      (snd (env_LoadParameter env (trace s @ [OS (Call_malloc Alloc_EsfNetworkManagerParameter)])))
      (pc_port (g_proxy_cache s))"
    and "ret \<noteq> 0 \<Longrightarrow> kEsfNetworkManagerResultSuccess env = 0 \<Longrightarrow> failed_port_ok env
      (snd (env_LoadParameter env (trace s @ [OS (Call_malloc Alloc_EsfNetworkManagerParameter)])))
      (pc_port (g_proxy_cache s)) ret (pc_port (g_proxy_cache t))"
proof -
  obtain p s1 where m: "c_malloc env Alloc_EsfNetworkManagerParameter s = (p, s1)"
    by (cases "c_malloc env Alloc_EsfNetworkManagerParameter s")
  have a: "allocs neutral (set_option p) s s1" using m by (rule allocs_malloc) simp
  then have c1: "g_proxy_cache s1 = g_proxy_cache s" by (rule allocs_esf_fields)
  have tr: "trace s1 = trace s @ [OS (Call_malloc Alloc_EsfNetworkManagerParameter)]"
    using m by (cases p) (auto simp: c_malloc_Some c_malloc_None)
  have same: "s1\<lparr>g_proxy_cache := g_proxy_cache s\<rparr> = s1" unfolding c1 [symmetric] by simp
  have o1: "owns s (set_option p) s1"
    using a assms(2) unfolding owns_def same c1 by (simp add: cache_empty_ptrs)
  define r2 where "r2 = (if p = None then
      (- ENOMEM, emit (EVP_AGENT_ERR ''esf.c'' 107
         ''failed to allocate memory for EsfNetworkManagerParameter'' []) s1)
    else init_proxy_cache_load env s1)"
  obtain ret2 s2 where r2: "r2 = (ret2, s2)" by (cases r2)
  obtain r prm where l: "env_LoadParameter env (trace s1) = (r, prm)"
    by (cases "env_LoadParameter env (trace s1)")
  have em: "cache_empty (g_proxy_cache s1)" using assms(2) c1 by simp
  note L = init_proxy_cache_load_owns [OF o1 em assms(3) l]
  have o2: "owns s (set_option p) s2" and
    ret2: "ret2 \<in> {kEsfNetworkManagerResultSuccess env, - EIO, - ENOMEM, - ERANGE}"
    using L [of ret2 s2] r2 o1 by (auto simp: r2_def split: if_splits intro: owns_emit)
  have v2: "ret2 = 0 \<Longrightarrow> cache_view (g_proxy_cache s2) = expected_view prm (pc_port (g_proxy_cache s))"
    using L(3) [of ret2 s2] r2 c1 by (auto simp: r2_def split: if_splits)
  have f2: "failed_port_ok env prm (pc_port (g_proxy_cache s)) ret2 (pc_port (g_proxy_cache s2))"
    if "ret2 \<noteq> 0" "kEsfNetworkManagerResultSuccess env = 0"
  proof (cases "p = None")
    case True
    with r2 c1 show ?thesis
      by (auto simp: r2_def failed_port_ok_def emit_def EIO_def ENOMEM_def ERANGE_def)
  next
    case False
    with L(4) [of ret2 s2] r2 c1 that show ?thesis by (simp add: r2_def)
  qed
  have o3: "owns s {} (c_free p s2)"
    using owns_free [OF o2 assms(1), of p] by simp
  have eq: "ret = ret2 \<and> t = (if ret2 \<noteq> 0 then evp_agent_esf_deinit_proxy_cache (c_free p s2) else c_free p s2)"
    using assms(4) r2 unfolding evp_agent_esf_init_proxy_cache_def m Let_def prod.case r2_def [symmetric]
    by auto
  note D = deinit_owns [OF o3 assms(1)]
  show "owns s {} t" using eq o3 D(1) by auto
  show "ret \<in> {kEsfNetworkManagerResultSuccess env, - EIO, - ENOMEM, - ERANGE}" using eq ret2 by simp
  show "cache_empty (g_proxy_cache t)" if "ret \<noteq> 0" using that eq D(2) by (simp add: cache_empty_def)
  show "cache_view (g_proxy_cache t) = expected_view
      (snd (env_LoadParameter env (trace s @ [OS (Call_malloc Alloc_EsfNetworkManagerParameter)])))
      (pc_port (g_proxy_cache s))" if "ret = 0"
    using that eq v2 l by (simp add: c_free_cache_update tr)
  show "failed_port_ok env
      (snd (env_LoadParameter env (trace s @ [OS (Call_malloc Alloc_EsfNetworkManagerParameter)])))
      (pc_port (g_proxy_cache s)) ret (pc_port (g_proxy_cache t))"
    if "ret \<noteq> 0" "kEsfNetworkManagerResultSuccess env = 0"
    using that eq f2 l D(2) by (simp add: c_free_cache_update tr)
qed

section \<open>The contract of a configuration source\<close>

text \<open>
  What the callers of \<open>evp_agent_esf_read_config\<close> rely on: a failed read leaves nothing
  behind, a successful one hands over two blocks of their own and a terminated value.
\<close>

locale config_source =
  fixes inv :: "'s io_state_scheme \<Rightarrow> bool"
    and read :: "config_key \<Rightarrow> 's io_state_scheme \<Rightarrow> evp_config option \<times> 's io_state_scheme"
  assumes inv_heap: "inv s \<Longrightarrow> heap_wf s"
    and read_None: "inv s \<Longrightarrow> read key s = (None, s') \<Longrightarrow> quiet neutral s s'"
    and read_Some: "inv s \<Longrightarrow> read key s = (Some cfg, s') \<Longrightarrow>
          allocs neutral {cfg_value_block cfg, cfg_block cfg} s s' \<and>
          cfg_value_block cfg \<noteq> cfg_block cfg \<and> cfg_key cfg = key \<and>
          NUL \<in> set (cfg_value cfg) \<and> cfg_size cfg = length (cstr (cfg_value cfg)) + 1"
begin

text \<open>Releasing the value and then the record, at once or after calls that keep the heap, gives back
  all that the read allocated.\<close>

lemma release_after:
  assumes "inv s" "read key s = (Some cfg, s')" "quiet neutral s' t"
  shows "quiet neutral s (c_free (Some (cfg_block cfg)) (c_free (Some (cfg_value_block cfg)) t))"
proof -
  note r = read_Some [OF assms(1,2)] and h = inv_heap [OF assms(1)]
  have "allocs neutral {cfg_value_block cfg, cfg_block cfg} s t" using r assms(3) by (auto intro: allocs_quiet)
  then have "allocs neutral ({cfg_value_block cfg, cfg_block cfg} - set_option (Some (cfg_value_block cfg)))
      s (c_free (Some (cfg_value_block cfg)) t)"
    using h by (rule allocs_free) auto
  moreover have "{cfg_value_block cfg, cfg_block cfg} - set_option (Some (cfg_value_block cfg)) =
      set_option (Some (cfg_block cfg))"
    using r by auto
  ultimately show ?thesis using h by (intro allocs_free_all) simp_all
qed

lemmas release_quiet = release_after [OF _ _ allocs_refl]

text \<open>The size covers the value and its terminator, and stays inside the block.\<close>

lemma read_size:
  assumes "inv s" "read key s = (Some cfg, s')"
  shows "cfg_size cfg \<le> length (cfg_value cfg)"
    and "take (cfg_size cfg) (cfg_value cfg) = cstr (cfg_value cfg) @ [NUL]"
proof -
  note r = read_Some [OF assms]
  let ?v = "cfg_value cfg"
  have l: "length (cstr ?v) < length ?v" using r by (simp add: length_cstr_less)
  then show "cfg_size cfg \<le> length ?v" using r by simp
  have "take (length (cstr ?v)) ?v = cstr ?v"
    unfolding cstr_def by (rule takeWhile_eq_take [symmetric])
  moreover have "?v ! length (cstr ?v) = NUL"
    using l nth_length_takeWhile [of "\<lambda>c. c \<noteq> NUL" ?v] by (simp add: cstr_def)
  ultimately show "take (cfg_size cfg) ?v = cstr ?v @ [NUL]"
    using r l by (simp add: take_Suc_conv_app_nth)
qed

end

interpretation esf: config_source "\<lambda>s. esf_contract env \<and> heap_wf s"
  "evp_agent_esf_read_config env" for env
proof (unfold_locales, goal_cases)
  case (1 s)
  then show ?case by simp
next
  case (2 s key s')
  then show ?case by (auto elim: read_config_cases [of env s key None s'])
next
  case (3 s key cfg s')
  then show ?case by (auto elim: read_config_cases [of env s key "Some cfg" s'])
qed

section \<open>Values of the proxy keys\<close>

text \<open>When memory is available a proxy key yields what the cache holds, cut to its maximum size.\<close>

fun proxy_value :: "config_key \<Rightarrow> proxy_cache \<Rightarrow> string option" where
  "proxy_value EVP_CONFIG_MQTT_PROXY_HOST c = map_option snd (pc_host c)"
| "proxy_value EVP_CONFIG_HTTP_PROXY_HOST c = map_option snd (pc_host c)"
| "proxy_value EVP_CONFIG_MQTT_PROXY_PORT c = nonempty (pc_port c)"
| "proxy_value EVP_CONFIG_HTTP_PROXY_PORT c = nonempty (pc_port c)"
| "proxy_value EVP_CONFIG_MQTT_PROXY_USERNAME c = map_option snd (pc_username c)"
| "proxy_value EVP_CONFIG_HTTP_PROXY_USERNAME c = map_option snd (pc_username c)"
| "proxy_value EVP_CONFIG_MQTT_PROXY_PASSWORD c = map_option snd (pc_password c)"
| "proxy_value EVP_CONFIG_HTTP_PROXY_PASSWORD c = map_option snd (pc_password c)"
| "proxy_value _ c = None"

definition proxy_keys :: "config_key list" where
  "proxy_keys = [EVP_CONFIG_MQTT_PROXY_HOST, EVP_CONFIG_HTTP_PROXY_HOST,
     EVP_CONFIG_MQTT_PROXY_PORT, EVP_CONFIG_HTTP_PROXY_PORT,
     EVP_CONFIG_MQTT_PROXY_USERNAME, EVP_CONFIG_HTTP_PROXY_USERNAME,
     EVP_CONFIG_MQTT_PROXY_PASSWORD, EVP_CONFIG_HTTP_PROXY_PASSWORD]"

lemma read_config_switch_proxy:
  "key \<in> set proxy_keys \<Longrightarrow>
     read_config_switch env key buf n s = config_from_cache (proxy_value key (g_proxy_cache s)) buf n s"
  by (auto simp: proxy_keys_def read_config_switch_def nonempty_def)

lemma proxy_keys_sized: "key \<in> set proxy_keys \<Longrightarrow> \<exists>n. config_max_size env key = Some n"
  by (auto simp: proxy_keys_def config_max_size_def g_max_sizes_designators_def)

lemma read_config_proxy:
  assumes "esf_contract env" "key \<in> set proxy_keys" "config_max_size env key = Some n"
    and "\<And>v. proxy_value key (g_proxy_cache s) = Some v \<Longrightarrow> NUL \<notin> set v"
    and "\<And>h a. env_malloc env h a"
  shows "map_option (\<lambda>cfg. cstr (cfg_value cfg)) (fst (evp_agent_esf_read_config env key s)) =
    map_option (take (n - 1)) (proxy_value key (g_proxy_cache s))"
proof -
  have inj: "inj (config_key_value env)" using assms(1) by (simp add: esf_contract_def)
  note look = g_max_sizes_lookup(1) [OF inj assms(3)]
  have pos: "0 < n" using config_max_size_pos [OF assms(1,3)] .
  let ?buf = "replicate (n + 1) NUL"
  have val: "cstr ((strncpy ?buf v n)[n - Suc 0 := NUL]) = take (n - Suc 0) v"
    if "proxy_value key (g_proxy_cache s) = Some v" for v
    using cstr_strncpy_terminated [of v n ?buf] assms(4) [OF that] pos by simp
  show ?thesis
    using look pos assms(2) val
    by (cases "proxy_value key (g_proxy_cache s)")
      (auto simp: evp_agent_esf_read_config_def Let_def c_malloc_def assms(5) emit_def
        read_config_switch_proxy config_from_cache_def store_nul_ok simp del: replicate.simps
        replicate_Suc)
qed

section \<open>A concrete environment\<close>

definition key_number :: "config_key \<Rightarrow> nat" where
  "key_number key = (case key of
     EVP_CONFIG_TLS_CA_CERT \<Rightarrow> 0 | EVP_CONFIG_MQTT_HOST \<Rightarrow> 1 | EVP_CONFIG_MQTT_PORT \<Rightarrow> 2
   | EVP_CONFIG_MQTT_TLS_CA_CERT \<Rightarrow> 3 | EVP_CONFIG_MQTT_TLS_CLIENT_CERT \<Rightarrow> 4
   | EVP_CONFIG_MQTT_TLS_CLIENT_KEY \<Rightarrow> 5 | EVP_CONFIG_HTTPS_CA_CERT \<Rightarrow> 6
   | EVP_CONFIG_MQTT_PROXY_HOST \<Rightarrow> 7 | EVP_CONFIG_MQTT_PROXY_PORT \<Rightarrow> 8
   | EVP_CONFIG_MQTT_PROXY_USERNAME \<Rightarrow> 9 | EVP_CONFIG_MQTT_PROXY_PASSWORD \<Rightarrow> 10
   | EVP_CONFIG_HTTP_PROXY_HOST \<Rightarrow> 11 | EVP_CONFIG_HTTP_PROXY_PORT \<Rightarrow> 12
   | EVP_CONFIG_HTTP_PROXY_USERNAME \<Rightarrow> 13 | EVP_CONFIG_HTTP_PROXY_PASSWORD \<Rightarrow> 14
   | EVP_CONFIG_IOT_PLATFORM \<Rightarrow> 15 | EVP_CONFIG_PK_FILE \<Rightarrow> 16 | EVP_CONFIG_OTHER n \<Rightarrow> 17 + n)"

definition example_proxy :: proxy_param where
  "example_proxy = \<lparr>pp_url = ''proxy.local'' @ [NUL], pp_port = 8080, pp_username = ''joe'' @ [NUL],
     pp_password = [NUL]\<rparr>"

lemma example_proxy_ok [simp]: "proxy_param_ok example_proxy"
  by (simp add: proxy_param_ok_def example_proxy_def)

definition esf_env_ok :: esf_env where
  "esf_env_ok = log_env.extend log_env_ok
     \<lparr>config_key_value = key_number, env_size = \<lambda>_. 64, kEsfNetworkManagerResultSuccess = 0,
      env_GetEvpTls = \<lambda>_. (kEsfSystemManagerResultOk, EvpTlsOther 0),
      env_LoadParameter = \<lambda>_. (0, example_proxy),
      env_SystemManagerGet = \<lambda>_ _ n. (kEsfSystemManagerResultOk, take n (''mqtt.example'' @ [NUL])),
      env_getenv = \<lambda>_ _. None,
      env_opendir = \<lambda>_ _. Some [''.'', ''..'', ''dev_cert.pem.bak'', ''dev_cert.pem'', ''dev_key.pem''],
      env_open = \<lambda>_ _. 3, env_read = \<lambda>_ _ n. (int (length (take n ''PEM'')), take n ''PEM''),
      env_asprintf_failed = \<lambda>_. None\<rparr>"

lemma inj_key_number: "inj key_number"
  by (rule injI) (simp add: key_number_def split: config_key.splits)

lemma esf_env_ok_facts:
  "esf_contract esf_env_ok" "env_malloc esf_env_ok h a"
  "env_LoadParameter esf_env_ok h = (0, example_proxy)" "kEsfNetworkManagerResultSuccess esf_env_ok = 0"
  by (simp_all add: esf_contract_def esf_env_ok_def inj_key_number log_env.defs log_env_ok_def)

definition esf_start :: esf_state where
  "esf_start = log_state.extend log_start
     \<lparr>g_proxy_cache = \<lparr>pc_host = None, pc_port = [], pc_username = None, pc_password = None\<rparr>\<rparr>"

lemma esf_start_facts:
  "heap_wf esf_start" "cache_empty (g_proxy_cache esf_start)" "trace esf_start = []"
  "live esf_start = {}" "\<not> ub esf_start" "pc_port (g_proxy_cache esf_start) = []"
  by (simp_all add: esf_start_def log_state.defs log_start_def heap_wf_def cache_empty_def)

section \<open>Properties\<close>

lemma deinit_cache:
  "g_proxy_cache (evp_agent_esf_deinit_proxy_cache s) =
     (g_proxy_cache s)\<lparr>pc_host := None, pc_username := None, pc_password := None\<rparr>"
  by (cases "g_proxy_cache s")
    (auto simp: evp_agent_esf_deinit_proxy_cache_def Let_def c_free_cache_update split: option.splits)

lemma deinit_empty: "cache_empty (g_proxy_cache s) \<Longrightarrow> evp_agent_esf_deinit_proxy_cache s = s"
  by (simp add: cache_empty_def evp_agent_esf_deinit_proxy_cache_def)

lemma owns_facts:
  assumes "owns s D t" "heap_wf s"
  shows "live t = live s \<union> (D \<union> set (cache_ptrs (g_proxy_cache t)))" "ub t = ub s"
    "set (cache_ptrs (g_proxy_cache t)) \<inter> live s = {}" "heap_wf t"
proof -
  let ?B = "D \<union> set (cache_ptrs (g_proxy_cache t))"
  have a: "allocs neutral ?B s (t\<lparr>g_proxy_cache := g_proxy_cache s\<rparr>)"
    using assms(1) by (simp add: owns_def)
  show "live t = live s \<union> ?B" "ub t = ub s" using allocs_facts(1,2) [OF a] by simp_all
  show "set (cache_ptrs (g_proxy_cache t)) \<inter> live s = {}"
    using allocs_facts(5) [OF a] assms(2) by (fastforce simp: heap_wf_def)
  show "heap_wf t" using allocs_heap_wf [OF a assms(2)] by (simp add: heap_wf_def)
qed

text \<open>C5. Reading a configuration key is memory safe: a failed read leaves no block behind; a
  successful one hands over exactly two new blocks, the value is a NUL-terminated string
  inside a block of the key's maximum size plus one, and the reported size is the length of
  the string with its terminator. The proxy cache is not changed.\<close>

theorem read_config_memory_safe:
  assumes "esf_contract env" "heap_wf s"
  shows "case evp_agent_esf_read_config env key s of
      (None, s') \<Rightarrow> live s' = live s \<and> ub s' = ub s \<and> g_proxy_cache s' = g_proxy_cache s
    | (Some cfg, s') \<Rightarrow>
        live s' = live s \<union> {cfg_value_block cfg, cfg_block cfg} \<and>
        cfg_value_block cfg \<noteq> cfg_block cfg \<and>
        cfg_value_block cfg \<notin> live s \<and> cfg_block cfg \<notin> live s \<and>
        ub s' = ub s \<and> g_proxy_cache s' = g_proxy_cache s \<and>
        config_max_size env key = Some (length (cfg_value cfg) - 1) \<and>
        cfg_size cfg \<le> length (cfg_value cfg) \<and>
        take (cfg_size cfg) (cfg_value cfg) = cstr (cfg_value cfg) @ [NUL]"
proof -
  obtain r s' where rc: "evp_agent_esf_read_config env key s = (r, s')"
    by (cases "evp_agent_esf_read_config env key s")
  from assms rc show ?thesis
  proof (cases rule: read_config_cases)
    case fail
    with rc show ?thesis by (simp add: allocs_facts [OF fail(2)] allocs_esf_fields [OF fail(2)])
  next
    case (ok cfg n)
    have sz: "cfg_size cfg \<le> length (cfg_value cfg)"
      "take (cfg_size cfg) (cfg_value cfg) = cstr (cfg_value cfg) @ [NUL]"
      using esf.read_size [of env s key cfg s'] assms rc ok(1) by simp_all
    have "cfg_value_block cfg \<notin> live s" "cfg_block cfg \<notin> live s"
      using allocs_facts(5) [OF ok(3)] assms(2) by (fastforce simp: heap_wf_def)+
    with rc ok sz show ?thesis
      by (simp add: allocs_facts [OF ok(3)] allocs_esf_fields [OF ok(3)])
  qed
qed

theorem read_config_memory_safe_witness:
  "esf_contract esf_env_ok \<and> heap_wf esf_start \<and>
   (case evp_agent_esf_read_config esf_env_ok EVP_CONFIG_MQTT_HOST esf_start of
      (None, s') \<Rightarrow> live s' = {}
    | (Some cfg, s') \<Rightarrow> live s' = {cfg_value_block cfg, cfg_block cfg})"
  using esf_env_ok_facts(1) esf_start_facts(1,4)
    read_config_memory_safe [OF esf_env_ok_facts(1) esf_start_facts(1), of EVP_CONFIG_MQTT_HOST]
  by (auto split: prod.splits option.splits)

text \<open>C14. Filling the proxy cache either stores every setting or no string. On success the cache
  holds the configured host, port, user name and password and owns one new block for each
  string. On failure the result is \<open>- EIO\<close>, \<open>- ENOMEM\<close> or \<open>- ERANGE\<close>, the three pointers are NULL
  and no block is left allocated, but the port array is not reset: it keeps the old text
  after \<open>- EIO\<close>, holds the text of the new port after \<open>- ERANGE\<close>, and one of the two after
  \<open>- ENOMEM\<close>. In all cases the parameter block is released and nothing undefined happens.\<close>

theorem init_proxy_cache_outcome:
  assumes "heap_wf s" "cache_empty (g_proxy_cache s)" "esf_contract env"
    and "evp_agent_esf_init_proxy_cache env s = (ret, t)" "kEsfNetworkManagerResultSuccess env = 0"
    and "prm = snd (env_LoadParameter env (trace s @ [OS (Call_malloc Alloc_EsfNetworkManagerParameter)]))"
  shows "ub t = ub s \<and> live t = live s \<union> set (cache_ptrs (g_proxy_cache t)) \<and>
    set (cache_ptrs (g_proxy_cache t)) \<inter> live s = {} \<and> distinct (cache_ptrs (g_proxy_cache t)) \<and>
    (if ret = 0 then
       map_option snd (pc_host (g_proxy_cache t)) = nonempty (cstr (pp_url prm)) \<and>
       pc_port (g_proxy_cache t) =
         (if cstr (pp_url prm) = [] then pc_port (g_proxy_cache s) else int_dec (pp_port prm)) \<and>
       map_option snd (pc_username (g_proxy_cache t)) = nonempty (cstr (pp_username prm)) \<and>
       map_option snd (pc_password (g_proxy_cache t)) = nonempty (cstr (pp_password prm))
     else
       live t = live s \<and> pc_host (g_proxy_cache t) = None \<and> pc_username (g_proxy_cache t) = None \<and>
       pc_password (g_proxy_cache t) = None \<and>
       (if ret = - EIO then pc_port (g_proxy_cache t) = pc_port (g_proxy_cache s)
        else if ret = - ERANGE then pc_port (g_proxy_cache t) = port_text env prm
        else ret = - ENOMEM \<and>
          pc_port (g_proxy_cache t) \<in> {pc_port (g_proxy_cache s), port_text env prm}))"
proof -
  note I = init_proxy_cache_owns [OF assms(1-4), folded assms(6)]
  note F = owns_facts [OF I(1) assms(1)]
  have "distinct (cache_ptrs (g_proxy_cache t))" using I(1) by (simp add: owns_def)
  moreover have "cache_view (g_proxy_cache t) = expected_view prm (pc_port (g_proxy_cache s))" if "ret = 0"
    using I(4) that .
  moreover have "cache_empty (g_proxy_cache t) \<and>
      failed_port_ok env prm (pc_port (g_proxy_cache s)) ret (pc_port (g_proxy_cache t))" if "ret \<noteq> 0"
    using I(3,5) that assms(5) by blast
  ultimately show ?thesis
    using F(1-3) by (cases "ret = 0")
      (auto simp: cache_view_def expected_view_def cache_empty_ptrs cache_empty_def failed_port_ok_def)
qed

theorem init_proxy_cache_outcome_witness:
  "cache_empty (g_proxy_cache esf_start) \<and>
   (let (ret, t) = evp_agent_esf_init_proxy_cache
          (esf_env_ok\<lparr>env_malloc := \<lambda>_ a. a \<noteq> Alloc_strdup ''joe''\<rparr>) esf_start
    in ret = - ENOMEM \<and> live t = {} \<and> \<not> ub t)"
proof -
  let ?env = "esf_env_ok\<lparr>env_malloc := \<lambda>_ a. a \<noteq> Alloc_strdup ''joe''\<rparr>"
  obtain ret t where i: "evp_agent_esf_init_proxy_cache ?env esf_start = (ret, t)"
    by (cases "evp_agent_esf_init_proxy_cache ?env esf_start")
  have ret: "ret = - ENOMEM"
    using i by (simp add: evp_agent_esf_init_proxy_cache_def init_proxy_cache_load_def
        save_proxy_host_def save_proxy_username_def c_strdup_def c_malloc_def esf_env_ok_def
        log_env.defs example_proxy_def Let_def cstr_def vsnprintf_ret_def INT_MAX_def
        int_dec_def nat_base.simps directives_def convert_def convert_int_def)
  have env: "kEsfNetworkManagerResultSuccess ?env = 0" by (simp add: esf_env_ok_def log_env.defs)
  have con: "esf_contract ?env" using esf_env_ok_facts(1) by (simp add: esf_contract_def)
  from init_proxy_cache_outcome [OF esf_start_facts(1,2) con i env refl]
  show ?thesis using esf_start_facts i ret by (auto simp: cache_ptrs_def)
qed

text \<open>C23. Releasing the cache gives back the memory of its initialisation: whatever
  initialisation returned, after \<open>evp_agent_esf_deinit_proxy_cache\<close> the same blocks are
  allocated as before it, nothing was released twice, and a second release does nothing. Of
  the cache exactly the three pointers are reset: the port text the initialisation wrote
  stays.\<close>

theorem init_deinit_proxy_cache_no_leak:
  assumes "heap_wf s" "cache_empty (g_proxy_cache s)" "esf_contract env"
    and "evp_agent_esf_init_proxy_cache env s = (ret, u)" "evp_agent_esf_deinit_proxy_cache u = t"
  shows "live t = live s \<and> ub t = ub s \<and>
    g_proxy_cache t = \<lparr>pc_host = None, pc_port = pc_port (g_proxy_cache u),
      pc_username = None, pc_password = None\<rparr> \<and>
    evp_agent_esf_deinit_proxy_cache t = t"
proof -
  have o: "owns s {} u" using init_proxy_cache_owns(1) [OF assms(1-4)] .
  have c: "g_proxy_cache t = \<lparr>pc_host = None, pc_port = pc_port (g_proxy_cache u),
      pc_username = None, pc_password = None\<rparr>"
    unfolding assms(5) [symmetric] by (simp add: deinit_cache)
  then have e: "cache_empty (g_proxy_cache t)" by (simp add: cache_empty_def)
  have "owns s {} t" using deinit_owns(1) [OF o assms(1)] assms(5) by simp
  from owns_facts [OF this assms(1)] c e deinit_empty [OF e] show ?thesis
    by (simp add: cache_empty_ptrs)
qed

theorem init_deinit_proxy_cache_no_leak_witness:
  "heap_wf esf_start \<and> cache_empty (g_proxy_cache esf_start) \<and>
   live (evp_agent_esf_deinit_proxy_cache
     (snd (evp_agent_esf_init_proxy_cache esf_env_ok esf_start))) = {}"
  using init_deinit_proxy_cache_no_leak [OF esf_start_facts(1,2) esf_env_ok_facts(1) surjective_pairing refl]
    esf_start_facts
  by simp

text \<open>The setting of the network manager behind each proxy key.\<close>

fun proxy_setting :: "config_key \<Rightarrow> proxy_param \<Rightarrow> string option" where
  "proxy_setting EVP_CONFIG_MQTT_PROXY_HOST prm = nonempty (cstr (pp_url prm))"
| "proxy_setting EVP_CONFIG_HTTP_PROXY_HOST prm = nonempty (cstr (pp_url prm))"
| "proxy_setting EVP_CONFIG_MQTT_PROXY_PORT prm =
     (if cstr (pp_url prm) = [] then None else Some (int_dec (pp_port prm)))"
| "proxy_setting EVP_CONFIG_HTTP_PROXY_PORT prm =
     (if cstr (pp_url prm) = [] then None else Some (int_dec (pp_port prm)))"
| "proxy_setting EVP_CONFIG_MQTT_PROXY_USERNAME prm = nonempty (cstr (pp_username prm))"
| "proxy_setting EVP_CONFIG_HTTP_PROXY_USERNAME prm = nonempty (cstr (pp_username prm))"
| "proxy_setting EVP_CONFIG_MQTT_PROXY_PASSWORD prm = nonempty (cstr (pp_password prm))"
| "proxy_setting EVP_CONFIG_HTTP_PROXY_PASSWORD prm = nonempty (cstr (pp_password prm))"
| "proxy_setting _ prm = None"

lemma proxy_value_view:
  assumes "cache_view c = expected_view prm []" "key \<in> set proxy_keys"
  shows "proxy_value key c = proxy_setting key prm"
  using assms by (auto simp: proxy_keys_def cache_view_def expected_view_def nonempty_def)

lemma save_proxy_ok:
  assumes "\<And>h a. env_malloc env h a"
  shows "fst (save_proxy_username env prm s) = None" "fst (save_proxy_password env prm s) = None"
    and "int (length (int_dec (pp_port prm))) < int (env_size env ESF_NETWORK_MANAGER_PROXY_PORT_LEN) \<Longrightarrow>
      int (length (int_dec (pp_port prm))) \<le> INT_MAX \<Longrightarrow> fst (save_proxy_host env prm s) = None"
proof -
  show "fst (save_proxy_username env prm s) = None" "fst (save_proxy_password env prm s) = None"
    using assms
    by (auto simp: save_proxy_username_def save_proxy_password_def c_strdup_def c_malloc_def Let_def)
  assume "int (length (int_dec (pp_port prm))) < int (env_size env ESF_NETWORK_MANAGER_PROXY_PORT_LEN)"
    "int (length (int_dec (pp_port prm))) \<le> INT_MAX"
  moreover from this have "vsnprintf_ret ''%d'' [FInt (pp_port prm)] = int (length (int_dec (pp_port prm)))"
    by (intro vsnprintf_ret_ok c_format_dec)
  ultimately show "fst (save_proxy_host env prm s) = None"
    using assms by (auto simp: save_proxy_host_def c_strdup_def c_malloc_def Let_def)
qed

lemma init_proxy_cache_ok:
  assumes mem: "\<And>h a. env_malloc env h a"
    and load: "\<And>h. env_LoadParameter env h = (0, prm)" "kEsfNetworkManagerResultSuccess env = 0"
    and port: "int (length (int_dec (pp_port prm))) < int (env_size env ESF_NETWORK_MANAGER_PROXY_PORT_LEN)"
      "int (length (int_dec (pp_port prm))) \<le> INT_MAX"
  shows "fst (evp_agent_esf_init_proxy_cache env s) = 0"
proof -
  have "fst (init_proxy_cache_load env t) = 0" for t :: "'b esf_state_scheme"
  proof -
    let ?t = "emit (ESF (Call_EsfNetworkManagerLoadParameter proxy_mask)) t"
    obtain s2 where h: "save_proxy_host env prm ?t = (None, s2)"
      using save_proxy_ok(3) [OF mem port] by (metis prod.collapse)
    obtain s3 where u: "save_proxy_username env prm s2 = (None, s3)"
      using save_proxy_ok(1) [OF mem] by (metis prod.collapse)
    obtain s4 where w: "save_proxy_password env prm s3 = (None, s4)"
      using save_proxy_ok(2) [OF mem] by (metis prod.collapse)
    from h u w show ?thesis by (simp add: init_proxy_cache_load_def load)
  qed
  then show ?thesis
    by (simp add: evp_agent_esf_init_proxy_cache_def c_malloc_def mem Let_def split: prod.splits)
      (metis fst_conv)
qed

text \<open>C15. Settings survive the round trip through the cache: with memory available and settings
  that fit the network manager's fields, initialisation succeeds and every proxy key then
  reads back exactly the configured setting, and fails for a setting that is empty.\<close>

theorem proxy_settings_roundtrip:
  assumes "esf_contract env" "heap_wf s" "cache_empty (g_proxy_cache s)" "pc_port (g_proxy_cache s) = []"
    and "\<And>h a. env_malloc env h a"
    and "\<And>h. env_LoadParameter env h = (0, prm)" "kEsfNetworkManagerResultSuccess env = 0"
    and "length (cstr (pp_url prm)) < env_size env ESF_NETWORK_MANAGER_PROXY_URL_LEN"
    and "length (int_dec (pp_port prm)) < env_size env ESF_NETWORK_MANAGER_PROXY_PORT_LEN"
    and "length (cstr (pp_username prm)) < env_size env ESF_NETWORK_MANAGER_PROXY_USER_NAME_LEN"
    and "length (cstr (pp_password prm)) < env_size env ESF_NETWORK_MANAGER_PROXY_PASSWORD_LEN"
    and "int (length (int_dec (pp_port prm))) \<le> INT_MAX" "key \<in> set proxy_keys"
  shows "fst (evp_agent_esf_init_proxy_cache env s) = 0 \<and>
    map_option (\<lambda>cfg. cstr (cfg_value cfg))
      (fst (evp_agent_esf_read_config env key (snd (evp_agent_esf_init_proxy_cache env s)))) =
    proxy_setting key prm"
proof -
  obtain t where i: "evp_agent_esf_init_proxy_cache env s = (0, t)"
    using init_proxy_cache_ok [OF assms(5,6,7)] assms(9,12) by (metis of_nat_less_iff prod.collapse)
  have view: "cache_view (g_proxy_cache t) = expected_view prm []"
    using init_proxy_cache_owns(4) [OF assms(2,3,1) i] by (simp add: assms)
  obtain n where n: "config_max_size env key = Some n" using proxy_keys_sized [OF assms(13)] ..
  have val: "proxy_value key (g_proxy_cache t) = proxy_setting key prm"
    using view assms(13) by (rule proxy_value_view)
  have fits: "NUL \<notin> set v \<and> length v < n" if "proxy_setting key prm = Some v" for v
    using that n assms(8-11,13)
    by (auto simp: proxy_keys_def config_max_size_def g_max_sizes_designators_def nonempty_def
        split: if_splits)
  have "map_option (\<lambda>cfg. cstr (cfg_value cfg)) (fst (evp_agent_esf_read_config env key t)) =
      map_option (take (n - 1)) (proxy_setting key prm)"
    using read_config_proxy [OF assms(1,13) n, of t] fits val assms(5) by auto
  also have "\<dots> = proxy_setting key prm"
    using fits by (cases "proxy_setting key prm") force+
  finally show ?thesis using i by simp
qed

theorem proxy_settings_roundtrip_witness:
  "map_option (\<lambda>cfg. cstr (cfg_value cfg))
     (fst (evp_agent_esf_read_config esf_env_ok EVP_CONFIG_MQTT_PROXY_PORT
       (snd (evp_agent_esf_init_proxy_cache esf_env_ok esf_start)))) = Some ''8080''"
proof -
  have "int_dec 8080 = ''8080''"
    by (simp add: int_dec_def nat_base.simps digit_char_decimal)
  then have d: "int_dec (pp_port example_proxy) = ''8080''" by (simp add: example_proxy_def)
  then have p: "proxy_setting EVP_CONFIG_MQTT_PROXY_PORT example_proxy = Some ''8080''"
    by (simp add: example_proxy_def cstr_def)
  have sz: "env_size esf_env_ok m = 64" for m by (simp add: esf_env_ok_def log_env.defs)
  show ?thesis
    using proxy_settings_roundtrip [OF esf_env_ok_facts(1) esf_start_facts(1,2,6) esf_env_ok_facts(2-4),
        of EVP_CONFIG_MQTT_PROXY_PORT]
    by (simp add: sz d p INT_MAX_def proxy_keys_def del: proxy_setting.simps)
      (simp add: example_proxy_def cstr_def)
qed

text \<open>C38. The port text survives the release of the cache: after
  \<open>evp_agent_esf_deinit_proxy_cache\<close> the host keys fail, but the port keys still return the
  port of the proxy that is gone.\<close>

theorem deinit_leaves_stale_port:
  assumes "esf_contract env" "\<And>h a. env_malloc env h a"
    and "pc_port (g_proxy_cache s) \<noteq> []" "NUL \<notin> set (pc_port (g_proxy_cache s))"
  shows "fst (evp_agent_esf_read_config env EVP_CONFIG_MQTT_PROXY_HOST
      (evp_agent_esf_deinit_proxy_cache s)) = None \<and>
    map_option (\<lambda>cfg. cstr (cfg_value cfg)) (fst (evp_agent_esf_read_config env
      EVP_CONFIG_MQTT_PROXY_PORT (evp_agent_esf_deinit_proxy_cache s))) =
    Some (take (env_size env ESF_NETWORK_MANAGER_PROXY_PORT_LEN - 1) (pc_port (g_proxy_cache s)))"
proof -
  let ?s = "evp_agent_esf_deinit_proxy_cache s"
  have keys: "EVP_CONFIG_MQTT_PROXY_HOST \<in> set proxy_keys" "EVP_CONFIG_MQTT_PROXY_PORT \<in> set proxy_keys"
    by (simp_all add: proxy_keys_def)
  have sizes: "config_max_size env EVP_CONFIG_MQTT_PROXY_HOST = Some (env_size env ESF_NETWORK_MANAGER_PROXY_URL_LEN)"
    "config_max_size env EVP_CONFIG_MQTT_PROXY_PORT = Some (env_size env ESF_NETWORK_MANAGER_PROXY_PORT_LEN)"
    by (simp_all add: config_max_size_def g_max_sizes_designators_def)
  have "proxy_value EVP_CONFIG_MQTT_PROXY_HOST (g_proxy_cache ?s) = None"
    "proxy_value EVP_CONFIG_MQTT_PROXY_PORT (g_proxy_cache ?s) = Some (pc_port (g_proxy_cache s))"
    using assms(3) by (simp_all add: deinit_cache nonempty_def)
  then show ?thesis
    using read_config_proxy [OF assms(1) keys(1) sizes(1), of ?s]
      read_config_proxy [OF assms(1) keys(2) sizes(2), of ?s] assms(2,4) by auto
qed

theorem deinit_leaves_stale_port_witness:
  "let s = esf_start\<lparr>g_proxy_cache := \<lparr>pc_host = None, pc_port = ''80'', pc_username = None,
             pc_password = None\<rparr>\<rparr>
   in fst (evp_agent_esf_read_config esf_env_ok EVP_CONFIG_MQTT_PROXY_HOST
        (evp_agent_esf_deinit_proxy_cache s)) = None \<and>
      map_option (\<lambda>cfg. cstr (cfg_value cfg)) (fst (evp_agent_esf_read_config esf_env_ok
        EVP_CONFIG_MQTT_PROXY_PORT (evp_agent_esf_deinit_proxy_cache s))) = Some ''80''"
  using deinit_leaves_stale_port [OF esf_env_ok_facts(1,2),
      of "esf_start\<lparr>g_proxy_cache := \<lparr>pc_host = None, pc_port = ''80'', pc_username = None,
             pc_password = None\<rparr>\<rparr>"]
  by (simp add: Let_def esf_env_ok_def log_env.defs)

text \<open>TLS is off only when the system manager answers that it is disabled; when the query
  fails the agent assumes TLS. The query changes nothing but the history.\<close>

lemma is_tls_enabled_fail_safe:
  "fst (evp_agent_esf_is_tls_enabled env s) \<longleftrightarrow>
     env_GetEvpTls env (trace s) \<noteq> (kEsfSystemManagerResultOk, kEsfSystemManagerEvpTlsDisable)"
  by (auto simp: evp_agent_esf_is_tls_enabled_def Let_def split: prod.splits if_splits)

lemma is_tls_enabled_quiet: "quiet neutral s (snd (evp_agent_esf_is_tls_enabled env s))"
  by (auto simp: evp_agent_esf_is_tls_enabled_def Let_def split: prod.splits intro!: allocs_emit)

definition cert_key_dir :: "string option \<Rightarrow> string" where
  "cert_key_dir v = (case v of None \<Rightarrow> MQTT_TLS_CLIENT_CERT_KEY_DEFAULT_DIR | Some d \<Rightarrow> d)"

lemma readdir_loop_find:
  assumes "\<And>h a. env_malloc env h a"
  shows "case find (sublist sfx) names of
      None \<Rightarrow> readdir_loop env d sfx names s = (- ENOENT, None, s)
    | Some n \<Rightarrow> readdir_loop env d sfx names s =
        (0, Some (fresh s, d @ ''/'' @ n), snd (c_malloc env (Alloc_asprintf (d @ ''/'' @ n)) s))"
proof (induction names)
  case Nil
  then show ?case by simp
next
  case (Cons x names)
  show ?case
  proof (cases "sublist sfx x")
    case True
    with strstr_sublist [of x sfx] assms show ?thesis by (simp add: Let_def c_malloc_def)
  next
    case False
    with strstr_sublist [of x sfx] Cons show ?thesis by (simp split: option.splits)
  qed
qed

lemma get_cert_key_path_find:
  assumes "\<And>h a. env_malloc env h a"
    and "env_getenv env (trace s) ''EVP_CERT_KEY_DIR_PATH'' = v"
    and "\<And>h. env_opendir env h (cert_key_dir v) = Some names"
  shows "(case get_cert_key_path env key s of (ret, path, s') \<Rightarrow> (ret, map_option snd path)) =
    (case find (sublist (cert_key_suffix key)) names of
       None \<Rightarrow> (- ENOENT, None)
     | Some n \<Rightarrow> (0, Some (cert_key_dir v @ ''/'' @ n)))"
proof -
  let ?s2 = "emit (OS (Call_opendir (cert_key_dir v))) (emit (OS (Call_getenv ''EVP_CERT_KEY_DIR_PATH'')) s)"
  have "(case get_cert_key_path env key s of (ret, path, s') \<Rightarrow> (ret, map_option snd path)) =
      (case readdir_loop env (cert_key_dir v) (cert_key_suffix key) names ?s2 of
         (ret, path, s') \<Rightarrow> (ret, map_option snd path))"
    using assms(2,3) by (simp add: get_cert_key_path_def Let_def cert_key_dir_def split: prod.splits)
  also have "\<dots> = (case find (sublist (cert_key_suffix key)) names of None \<Rightarrow> (- ENOENT, None)
     | Some n \<Rightarrow> (0, Some (cert_key_dir v @ ''/'' @ n)))"
    using readdir_loop_find [OF assms(1), where sfx = "cert_key_suffix key" and names = names
        and d = "cert_key_dir v" and s = ?s2]
    by (auto split: option.splits)
  finally show ?thesis .
qed

text \<open>C32. The certificate or key file is the first directory entry whose name contains the
  suffix anywhere, in the directory the environment variable names or \<open>/etc/evp\<close>; the search
  ends with \<open>- ENOENT\<close> when no entry does. A name such as \<open>dev_cert.pem.bak\<close> is accepted,
  although the error message promises names that end in the suffix.\<close>

theorem get_cert_key_path_first_match:
  assumes "\<And>h a. env_malloc env h a"
    and "env_getenv env (trace s) ''EVP_CERT_KEY_DIR_PATH'' = v"
    and "\<And>h. env_opendir env h (cert_key_dir v) = Some names"
  shows "(case get_cert_key_path env key s of (ret, path, s') \<Rightarrow> (ret, map_option snd path)) =
    (case find (sublist (cert_key_suffix key)) names of
       None \<Rightarrow> (- ENOENT, None)
     | Some n \<Rightarrow> (0, Some (cert_key_dir v @ ''/'' @ n)))"
  by (rule get_cert_key_path_find [OF assms])

theorem get_cert_key_path_first_match_witness:
  "(case get_cert_key_path esf_env_ok EVP_CONFIG_MQTT_TLS_CLIENT_CERT esf_start of
      (ret, path, s') \<Rightarrow> (ret, map_option snd path)) = (0, Some ''/etc/evp/dev_cert.pem.bak'')"
proof -
  have o: "env_opendir esf_env_ok h (cert_key_dir None) =
      Some [''.'', ''..'', ''dev_cert.pem.bak'', ''dev_cert.pem'', ''dev_key.pem'']" for h
    by (simp add: esf_env_ok_def log_env.defs)
  have v: "env_getenv esf_env_ok (trace esf_start) ''EVP_CERT_KEY_DIR_PATH'' = None"
    by (simp add: esf_env_ok_def log_env.defs)
  show ?thesis
    using get_cert_key_path_first_match [OF esf_env_ok_facts(2) v o, of EVP_CONFIG_MQTT_TLS_CLIENT_CERT]
    by (simp add: cert_key_suffix_def cert_key_dir_def MQTT_TLS_CLIENT_CERT_KEY_DEFAULT_DIR_def
        sublist_code)
qed

lemma write_bytes_zero:
  assumes "length bs \<le> n"
  shows "(write_bytes (replicate (Suc n) NUL) bs)[n := NUL] = bs @ replicate (Suc n - length bs) NUL"
proof -
  have "drop (length bs) (replicate (Suc n) NUL) = replicate (Suc n - length bs) NUL"
    by (simp only: drop_replicate)
  moreover have "(replicate (Suc n - length bs) NUL)[n - length bs := NUL] = replicate (Suc n - length bs) NUL"
    by (metis list_update_id nth_replicate lessI Suc_diff_le assms)
  ultimately show ?thesis using assms by (simp add: write_bytes_def list_update_append)
qed

lemma cstr_zero_padded: "cstr (bs @ replicate n NUL) = cstr bs"
  by (simp add: cstr_append cstr_id)

lemma read_cert_key_content:
  assumes "\<And>h a. env_malloc env h a"
    and "\<And>h. env_getenv env h ''EVP_CERT_KEY_DIR_PATH'' = v"
    and "\<And>h. env_opendir env h (cert_key_dir v) = Some names"
    and "find (sublist (cert_key_suffix key)) names = Some n"
    and "\<And>h. env_open env h (cert_key_dir v @ ''/'' @ n) = fd" "0 \<le> fd"
    and "\<And>h k. env_read env h fd k = (int (length (take k content)), take k content)"
    and "content \<noteq> []" "0 < max_size"
  shows "\<exists>s'. read_cert_key env key (replicate (Suc max_size) NUL) (max_size + 1) s =
    (0, take max_size content @ replicate (Suc max_size - length (take max_size content)) NUL, s')"
proof -
  obtain b s1 where g: "get_cert_key_path env key s = (0, Some (b, cert_key_dir v @ ''/'' @ n), s1)"
    using get_cert_key_path_find [OF assms(1-3), of key s] assms(4) by (auto split: prod.splits)
  let ?bs = "take max_size content"
  have ne: "\<not> int (length ?bs) \<le> 0" using assms(8,9) by simp
  have le: "length ?bs \<le> max_size" "length ?bs \<le> Suc max_size" by simp_all
  have tk: "take (length ?bs) content = ?bs" by (simp add: min_def)
  show ?thesis
    using ne assms(5,6,7) le write_bytes_zero [OF le(1)]
    by (simp add: read_cert_key_def g tk Let_def store_bytes_def store_nul_def del: length_take take_eq_Nil)
qed

text \<open>Without the promise of \<open>asprintf\<close>: when the allocation of the path fails and the pointer is
  left with a value that is not an allocated block, \<open>read_cert_key\<close> releases that value.\<close>

lemma readdir_loop_asprintf_failed:
  assumes "find (sublist sfx) names = Some n" "\<And>h. \<not> env_malloc env h (Alloc_asprintf (d @ ''/'' @ n))"
    and "\<And>h. env_asprintf_failed env h = Some b"
  shows "\<exists>t. readdir_loop env d sfx names s = (- ENOMEM, Some (b, []), t) \<and> live t = live s"
  using assms(1)
proof (induction names)
  case Nil
  then show ?case by simp
next
  case (Cons x names)
  then show ?case
    using strstr_sublist [of x sfx] assms(2,3)
    by (cases "sublist sfx x") (simp_all add: Let_def c_malloc_def)
qed

lemma read_cert_key_frees_unset_pointer:
  assumes "env_getenv env (trace s) ''EVP_CERT_KEY_DIR_PATH'' = v"
    and "\<And>h. env_opendir env h (cert_key_dir v) = Some names"
    and "find (sublist (cert_key_suffix key)) names = Some n"
    and "\<And>h. \<not> env_malloc env h (Alloc_asprintf (cert_key_dir v @ ''/'' @ n))"
    and "\<And>h. env_asprintf_failed env h = Some b" "b \<notin> live s"
  shows "case read_cert_key env key buf k s of (ret, buf', s') \<Rightarrow> ret = - ENOMEM \<and> ub s'"
proof -
  let ?s2 = "emit (OS (Call_opendir (cert_key_dir v))) (emit (OS (Call_getenv ''EVP_CERT_KEY_DIR_PATH'')) s)"
  obtain t where t: "readdir_loop env (cert_key_dir v) (cert_key_suffix key) names ?s2 =
      (- ENOMEM, Some (b, []), t)" "live t = live s"
    using readdir_loop_asprintf_failed [OF assms(3-5), where s = ?s2] by auto
  then have "get_cert_key_path env key s =
      (- ENOMEM, Some (b, []), emit (OS (Call_closedir (cert_key_dir v))) t)"
    using assms(1,2) by (simp add: get_cert_key_path_def Let_def cert_key_dir_def)
  with t(2) assms(6) show ?thesis by (simp add: read_cert_key_def)
qed

text \<open>C22. A client certificate or key is delivered as the bytes of the file that the search
  finds, cut to the size limit of its key (32768 and 4096 bytes) and at the first NUL, when
  the directory, the file and the memory are available and one \<open>read\<close> returns the whole
  file.\<close>

theorem read_config_client_file_content:
  assumes "inj (config_key_value env)" "\<And>h a. env_malloc env h a"
    and "\<And>h. env_getenv env h ''EVP_CERT_KEY_DIR_PATH'' = v"
    and "\<And>h. env_opendir env h (cert_key_dir v) = Some names"
    and "find (sublist (cert_key_suffix key)) names = Some n"
    and "\<And>h. env_open env h (cert_key_dir v @ ''/'' @ n) = fd" "0 \<le> fd"
    and "\<And>h k. env_read env h fd k = (int (length (take k content)), take k content)"
    and "content \<noteq> []"
    and "(key, max_size) \<in> {(EVP_CONFIG_MQTT_TLS_CLIENT_CERT, 32768), (EVP_CONFIG_MQTT_TLS_CLIENT_KEY, 4096)}"
  shows "map_option (\<lambda>cfg. (cfg_key cfg, cstr (cfg_value cfg))) (fst (evp_agent_esf_read_config env key s)) =
    Some (key, cstr (take max_size content))"
proof -
  have sz: "config_max_size env key = Some max_size" and pos: "0 < max_size"
    using assms(10) by (auto simp: config_max_size_def g_max_sizes_designators_def
        MQTT_TLS_CLIENT_CERT_MAX_SIZE_def MQTT_TLS_CLIENT_KEY_MAX_SIZE_def)
  have k: "\<not> length (g_max_sizes env) \<le> config_key_value env key"
    "g_max_sizes env ! config_key_value env key = max_size"
    using g_max_sizes_lookup(1) [OF assms(1) sz] by simp_all
  obtain b s1 where m: "c_malloc env (Alloc_config_buf (max_size + 1)) s = (Some b, s1)"
    using assms(2) by (simp add: c_malloc_def)
  obtain s2 where r: "read_cert_key env key (replicate (Suc max_size) NUL) (max_size + 1) s1 =
    (0, take max_size content @ replicate (Suc max_size - length (take max_size content)) NUL, s2)"
    using read_cert_key_content [OF assms(2-9) pos, of s1] by blast
  have sw: "read_config_switch env key (replicate (Suc max_size) NUL) max_size s1 =
    (True, take max_size content @ replicate (Suc max_size - length (take max_size content)) NUL, s2)"
    using assms(10) r by (auto simp: read_config_switch_def config_from_cert_key_def Let_def)
  obtain cb s3 where c: "c_malloc env Alloc_config s2 = (Some cb, s3)"
    using assms(2) by (simp add: c_malloc_def)
  show ?thesis
    using k m sw c by (simp add: evp_agent_esf_read_config_def Let_def cstr_zero_padded
        del: length_take replicate_Suc)
qed

theorem read_config_client_file_content_witness:
  "map_option (\<lambda>cfg. (cfg_key cfg, cstr (cfg_value cfg)))
     (fst (evp_agent_esf_read_config esf_env_ok EVP_CONFIG_MQTT_TLS_CLIENT_CERT esf_start)) =
   Some (EVP_CONFIG_MQTT_TLS_CLIENT_CERT, ''PEM'')"
proof -
  let ?names = "[''.'', ''..'', ''dev_cert.pem.bak'', ''dev_cert.pem'', ''dev_key.pem'']"
  have e: "env_getenv esf_env_ok h ''EVP_CERT_KEY_DIR_PATH'' = None"
    "env_opendir esf_env_ok h (cert_key_dir None) = Some ?names"
    "env_open esf_env_ok h (cert_key_dir None @ ''/'' @ ''dev_cert.pem.bak'') = 3"
    "env_read esf_env_ok h 3 k = (int (length (take k ''PEM'')), take k ''PEM'')" for h k
    by (simp_all add: esf_env_ok_def log_env.defs)
  have f: "find (sublist (cert_key_suffix EVP_CONFIG_MQTT_TLS_CLIENT_CERT)) ?names = Some ''dev_cert.pem.bak''"
    by (simp add: cert_key_suffix_def sublist_code)
  have "inj (config_key_value esf_env_ok)"
    using esf_env_ok_facts(1) by (simp add: esf_contract_def)
  then show ?thesis
    using read_config_client_file_content [OF _ esf_env_ok_facts(2) e(1,2) f e(3) _ e(4),
        of 32768 esf_start] by (simp add: cstr_def)
qed

end
