(* ===== verification/Config.thy ===== *)
theory Config
  imports Esf
begin

text \<open>
  \<open>config.c\<close>: the four configuration callbacks that the EVP agent library calls. They sit on
  \<open>evp_agent_esf_read_config\<close> and are a configuration source of the same contract: the
  interpretation \<open>cfg\<close> below. A \<open>struct config\<close> owns its value block, and \<open>load_config_impl\<close>
  hands out a pointer to that very block, so \<open>unload_config_impl\<close> writes through the alias.
\<close>

text \<open>\<open>mbedtls_platform_zeroize\<close> is not in the repository: the bytes it leaves in a block are
  an answer of the environment.\<close>

record config_env = esf_env +
  env_zeroize :: "history \<Rightarrow> char list \<Rightarrow> nat \<Rightarrow> char list"

section \<open>Operations\<close>

definition load_config_impl :: "evp_config \<Rightarrow> int \<times> nat \<times> nat" where
  "load_config_impl config = (0, cfg_value_block config, cfg_size config)"

text \<open>The pointer is the value block of \<open>config\<close> or some other block; writing past the end of
  the value block is undefined.\<close>

definition unload_config_impl ::
  "'e config_env_scheme \<Rightarrow> evp_config \<Rightarrow> nat \<Rightarrow> nat \<Rightarrow> 's io_state_scheme \<Rightarrow>
   evp_config \<times> 's io_state_scheme" where
  "unload_config_impl env config vp0 sz s =
     (let s1 = emit (ESF (Call_mbedtls_platform_zeroize sz)) s
      in if vp0 \<noteq> cfg_value_block config then (config, s1)
         else if length (cfg_value config) < sz then (config, undefined_behaviour s1)
         else (config\<lparr>cfg_value := env_zeroize env (trace s) (cfg_value config) sz\<rparr>, s1))"

definition get_config_impl ::
  "'e config_env_scheme \<Rightarrow> config_key \<Rightarrow> 's esf_state_scheme \<Rightarrow> evp_config option \<times> 's esf_state_scheme" where
  "get_config_impl env key s =
     (if key = EVP_CONFIG_MQTT_TLS_CLIENT_KEY \<or> key = EVP_CONFIG_MQTT_TLS_CLIENT_CERT \<or>
         key = EVP_CONFIG_MQTT_TLS_CA_CERT then
        let (tls, s1) = evp_agent_esf_is_tls_enabled env s
        in if \<not> tls then (None, s1) else evp_agent_esf_read_config env key s1
      else evp_agent_esf_read_config env key s)"

definition config_is_pk_file :: "config_key \<Rightarrow> bool" where
  "config_is_pk_file key \<longleftrightarrow> key = EVP_CONFIG_PK_FILE"

section \<open>A configuration source\<close>

definition tls_keys :: "config_key set" where
  "tls_keys = {EVP_CONFIG_MQTT_TLS_CLIENT_KEY, EVP_CONFIG_MQTT_TLS_CLIENT_CERT,
     EVP_CONFIG_MQTT_TLS_CA_CERT}"

text \<open>Every outcome is one of reading, after a quiet prologue, or \<open>NULL\<close> after it.\<close>

lemma get_config_cases:
  obtains t where "quiet neutral s t"
    "get_config_impl env key s = evp_agent_esf_read_config env key t \<or>
     get_config_impl env key s = (None, t)"
proof (cases "key \<in> tls_keys")
  case True
  with that [of "snd (evp_agent_esf_is_tls_enabled env s)"] is_tls_enabled_quiet [of s env]
  show ?thesis by (force simp: get_config_impl_def tls_keys_def split: prod.splits if_splits)
next
  case False
  with that [of s] show ?thesis by (auto simp: get_config_impl_def tls_keys_def)
qed

interpretation cfg: config_source "\<lambda>s. esf_contract env \<and> heap_wf s" "get_config_impl env" for env
proof (unfold_locales, goal_cases)
  case (1 s)
  then show ?case by simp
next
  case (2 s key s')
  obtain t where t: "quiet neutral s t" "get_config_impl env key s = evp_agent_esf_read_config env key t \<or>
     get_config_impl env key s = (None, t)" by (rule get_config_cases)
  with 2 have "heap_wf t" by (blast intro: allocs_heap_wf)
  with 2 t esf.read_None [of env t key s'] show ?case by (auto intro: quiet_trans)
next
  case (3 s key cfg s')
  obtain t where t: "quiet neutral s t" "get_config_impl env key s = evp_agent_esf_read_config env key t"
    using get_config_cases [of s env key] 3 by (metis option.distinct(1) prod.inject)
  with 3 have "heap_wf t" by (blast intro: allocs_heap_wf)
  with 3 t esf.read_Some [of env t key cfg s'] show ?case by (auto intro: quiet_allocs)
qed

section \<open>What the program relies on\<close>

text \<open>\<open>mbedtls_platform_zeroize\<close> is documented to set the first \<open>n\<close> bytes to zero and touch
  no others.\<close>

definition zeroize_contract :: "'e config_env_scheme \<Rightarrow> bool" where
  "zeroize_contract env \<longleftrightarrow>
     (\<forall>h buf n. n \<le> length buf \<longrightarrow> env_zeroize env h buf n = replicate n NUL @ drop n buf)"

definition config_env_ok :: config_env where
  "config_env_ok = esf_env.extend esf_env_ok \<lparr>env_zeroize = \<lambda>_ buf n. replicate n NUL @ drop n buf\<rparr>"

lemma config_env_ok_facts:
  "esf_contract config_env_ok" "zeroize_contract config_env_ok" "env_malloc config_env_ok h a"
  "env_GetEvpTls config_env_ok h = (kEsfSystemManagerResultOk, EvpTlsOther 0)"
  "config_key_value config_env_ok = key_number"
  "env_SystemManagerGet config_env_ok h i n =
     (kEsfSystemManagerResultOk, take n (''mqtt.example'' @ [NUL]))"
  "env_size config_env_ok = (\<lambda>_. 64)"
  by (simp_all add: config_env_ok_def zeroize_contract_def esf_contract_def esf_env_ok_def
      log_env_ok_def log_env.defs esf_env.defs inj_key_number)

section \<open>Properties\<close>

text \<open>C21. In insecure mode (TLS disabled) a request for the client key, the client certificate or
  the broker's CA certificate is answered \<open>NULL\<close> after the single query of the TLS setting: no
  file is opened, no memory allocated, nothing is logged. Every other key ignores the TLS
  setting and is answered by \<open>evp_agent_esf_read_config\<close>.\<close>

theorem get_config_insecure_mode:
  assumes "env_GetEvpTls env (trace s) = (kEsfSystemManagerResultOk, kEsfSystemManagerEvpTlsDisable)"
  shows "get_config_impl env key s =
    (if key \<in> tls_keys then (None, emit (ESF Call_EsfSystemManagerGetEvpTls) s)
     else evp_agent_esf_read_config env key s)"
  using assms by (auto simp: get_config_impl_def tls_keys_def evp_agent_esf_is_tls_enabled_def)

theorem get_config_insecure_mode_witness:
  "get_config_impl (config_env_ok\<lparr>env_GetEvpTls := \<lambda>_. (kEsfSystemManagerResultOk, kEsfSystemManagerEvpTlsDisable)\<rparr>)
     EVP_CONFIG_MQTT_TLS_CLIENT_KEY esf_start = (None, emit (ESF Call_EsfSystemManagerGetEvpTls) esf_start)"
  using get_config_insecure_mode [of "config_env_ok\<lparr>env_GetEvpTls := \<lambda>_. (kEsfSystemManagerResultOk, kEsfSystemManagerEvpTlsDisable)\<rparr>"
      esf_start EVP_CONFIG_MQTT_TLS_CLIENT_KEY]
  by (simp add: tls_keys_def)

text \<open>C9. A complete configuration session is free of leaks and undefined behaviour: getting a
  value, loading it, unloading it through the loaded pointer and releasing the value and the
  structure leaves the heap as it was before. Between load and unload the caller sees exactly
  the string and its terminator; after the unload those bytes of the block are zero and no
  byte behind them has changed.\<close>

theorem config_session_erases_and_releases:
  assumes "esf_contract env" "zeroize_contract env" "heap_wf s"
    and "get_config_impl env key s = (Some cfg, s1)"
    and "load_config_impl cfg = (ret, vp, sz)"
    and "unload_config_impl env cfg vp sz s1 = (cfg', s2)"
  shows "ret = 0 \<and> take sz (cfg_value cfg) = cstr (cfg_value cfg) @ [NUL] \<and>
    cfg_value cfg' = replicate sz NUL @ drop sz (cfg_value cfg) \<and>
    (let s3 = c_free (Some (cfg_block cfg')) (c_free (Some (cfg_value_block cfg')) s2)
     in live s3 = live s \<and> ub s3 = ub s)"
proof -
  have inv: "esf_contract env \<and> heap_wf s" using assms by blast
  note sz = cfg.read_size [of env, OF inv assms(4)]
  have ld: "ret = 0" "vp = cfg_value_block cfg" "sz = cfg_size cfg"
    using assms(5) by (auto simp: load_config_impl_def)
  have ul: "cfg' = cfg\<lparr>cfg_value := replicate sz NUL @ drop sz (cfg_value cfg)\<rparr>"
    "s2 = emit (ESF (Call_mbedtls_platform_zeroize sz)) s1"
    using assms(2,6) sz ld by (auto simp: unload_config_impl_def zeroize_contract_def Let_def)
  have q: "quiet neutral s (c_free (Some (cfg_block cfg)) (c_free (Some (cfg_value_block cfg)) s1))"
    using cfg.release_quiet [of env, OF inv assms(4)] .
  have "live (c_free (Some (cfg_block cfg)) (c_free (Some (cfg_value_block cfg)) s1)) = live s"
    "ub (c_free (Some (cfg_block cfg)) (c_free (Some (cfg_value_block cfg)) s1)) = ub s"
    using allocs_facts [OF q] by auto
  with sz ld ul show ?thesis by (simp add: Let_def)
qed

theorem config_session_erases_and_releases_witness:
  "\<exists>cfg s1 cfg' s2. get_config_impl config_env_ok EVP_CONFIG_MQTT_HOST esf_start = (Some cfg, s1) \<and>
     unload_config_impl config_env_ok cfg (cfg_value_block cfg) (cfg_size cfg) s1 = (cfg', s2) \<and>
     cstr (cfg_value cfg) = ''mqtt.example'' \<and> cfg_value cfg' = replicate 65 NUL"
proof -
  obtain cfg s1 where g: "get_config_impl config_env_ok EVP_CONFIG_MQTT_HOST esf_start = (Some cfg, s1)"
    and v: "cfg_value cfg = ''mqtt.example'' @ replicate 53 NUL"
  proof -
    have "config_max_size config_env_ok EVP_CONFIG_MQTT_HOST = Some 64"
      by (simp add: config_max_size_def g_max_sizes_designators_def config_env_ok_facts)
    moreover have "inj (config_key_value config_env_ok)"
      by (simp add: config_env_ok_facts inj_key_number)
    ultimately have "\<not> length (g_max_sizes config_env_ok) \<le> config_key_value config_env_ok EVP_CONFIG_MQTT_HOST"
      "g_max_sizes config_env_ok ! config_key_value config_env_ok EVP_CONFIG_MQTT_HOST = 64"
      using g_max_sizes_lookup(1) [of config_env_ok EVP_CONFIG_MQTT_HOST 64] by simp_all
    then have "map_option cfg_value (fst (get_config_impl config_env_ok EVP_CONFIG_MQTT_HOST esf_start)) =
        Some (''mqtt.example'' @ replicate 53 NUL)"
      by (simp add: get_config_impl_def evp_agent_esf_read_config_def Let_def c_malloc_def
          read_config_switch_def config_from_sysmgr_def EsfSystemManagerGet_def config_env_ok_facts
          store_bytes_def write_bytes_def numeral_eq_Suc)
    with that show thesis
      by (cases "get_config_impl config_env_ok EVP_CONFIG_MQTT_HOST esf_start") auto
  qed
  obtain cfg' s2 where u: "unload_config_impl config_env_ok cfg (cfg_value_block cfg) (cfg_size cfg) s1 = (cfg', s2)"
    by fastforce
  have c: "cstr (cfg_value cfg) = ''mqtt.example''" by (simp add: v cstr_def)
  note r = config_session_erases_and_releases [OF config_env_ok_facts(1,2) esf_start_facts(1) g
      load_config_impl_def u]
  have "length (take (cfg_size cfg) (cfg_value cfg)) = 13" using r c by simp
  then have "cfg_size cfg = 13" by (simp add: v)
  with r v have "cfg_value cfg' = replicate 65 NUL"
    by (simp add: numeral_eq_Suc)
  with g u c show ?thesis by blast
qed

end
