(* ===== verification/Notifications.thy ===== *)
theory Notifications
  imports Config
begin

text \<open>
  The first half of \<open>notifications.c\<close>: the handlers that turn the agent's notifications (blob
  results, MQTT state changes, network errors) into the two event-log codes of the device.
  They keep a saturating reconnect counter and four flags between notifications.

  An event is the \<open>const void *\<close> a handler receives: \<open>None\<close> is NULL. Comparing a NULL string
  is undefined.
\<close>

section \<open>Constants and state\<close>

definition MQTT_RECONNECT_CNT_MAX :: u8 where "MQTT_RECONNECT_CNT_MAX = 0xF"
definition MQTT_RECONNECT_CNT_MASK :: u8 where "MQTT_RECONNECT_CNT_MASK = 0xF0"
definition MQTT_RECONNECT_CNT_SHIFT :: nat where "MQTT_RECONNECT_CNT_SHIFT = 4"
definition MQTT_ERR_RECV_BUFF_MASK :: u8 where "MQTT_ERR_RECV_BUFF_MASK = 0x08"
definition MQTT_ERR_SEND_BUFF_MASK :: u8 where "MQTT_ERR_SEND_BUFF_MASK = 0x04"
definition INVALID_TIME_MASK :: u8 where "INVALID_TIME_MASK = 0x02"
definition ELOG_EVP_BLOB_NETWORK_STATUS :: u8 where "ELOG_EVP_BLOB_NETWORK_STATUS = 0xF0"
definition ELOG_EVP_MQTT_STATUS :: u8 where "ELOG_EVP_MQTT_STATUS = 0xF1"
definition ELOG_EVP_WASM_STATUS :: u8 where "ELOG_EVP_WASM_STATUS = 0xF2"

record notif_state = esf_state +
  g_mqtt_reconnect_cnt :: u8
  g_mqtt_sync_error_recv_buffer_too_small :: bool
  g_mqtt_sync_error_send_buffer_is_full :: bool
  g_mqtt_sync_error_invalid_time :: bool
  g_tcp_timer_error_timeout :: bool

record tm =
  tm_year :: int
  tm_mon :: int
  tm_mday :: int
  tm_hour :: int
  tm_min :: int
  tm_sec :: int

text \<open>\<open>clock_gettime\<close> returns its result and the seconds; \<open>localtime_r\<close> what it leaves in the
  zeroed \<open>struct tm\<close>. The LED manager and the subscription belong to the second half.\<close>

record notif_env = config_env +
  env_clock_gettime :: "history \<Rightarrow> int \<times> int"
  env_localtime_r :: "history \<Rightarrow> int \<Rightarrow> tm"
  env_sysmgr_error_number :: "sysmgr_result \<Rightarrow> int"
  env_EsfLedManagerSetStatus :: "history \<Rightarrow> led_status_info \<Rightarrow> int"
  kEsfLedManagerSuccess :: int
  env_led_status_number :: "led_status \<Rightarrow> int"
  env_notification_subscribe :: "history \<Rightarrow> string \<Rightarrow> int"

datatype blob_result_kind =
    EVP_BLOB_RESULT_SUCCESS | EVP_BLOB_RESULT_ERROR_HTTP | EVP_BLOB_RESULT_ERROR | EVP_BLOB_RESULT_other nat

record blob_result =
  br_result :: blob_result_kind
  br_http_status :: u32
  br_error :: int

section \<open>Blob results\<close>

definition elog_handler_blob_success ::
  "'e notif_env_scheme \<Rightarrow> 's log_state_scheme \<Rightarrow> int \<times> 's log_state_scheme" where
  "elog_handler_blob_success env s =
     (let (code, s1) = SystemGetELog ELOG_EVP_BLOB_NETWORK_STATUS s;
          tmp = push_bit 6 1 :: u8;
          code = code AND NOT 0x1;
          code = (tmp AND 0xFC) OR (code AND 0x3);
          (ret, s2) = SystemSetELog env ELOG_EVP_BLOB_NETWORK_STATUS code s1;
          s3 = (if ret < 0 then emit (EVP_AGENT_ERR ''notifications.c'' 118
                  ''Failed to send ELOG: %d'' [FInt ret]) s2 else s2)
      in (0, s3))"

definition http_status_bits :: "u32 \<Rightarrow> u8" where
  "http_status_bits status =
     (if status = 200 then push_bit 2 1
      else if status = 400 then push_bit 2 2
      else if status = 401 then push_bit 2 3
      else if status = 403 then push_bit 2 4
      else if status = 404 then push_bit 2 5
      else if status = 500 then push_bit 2 6
      else if status = 502 then push_bit 2 7
      else if status = 503 then push_bit 2 8
      else push_bit 2 9)"

definition elog_handler_blob_http_error ::
  "'e notif_env_scheme \<Rightarrow> u32 \<Rightarrow> 's log_state_scheme \<Rightarrow> int \<times> 's log_state_scheme" where
  "elog_handler_blob_http_error env status s =
     (let tmp = push_bit 6 2 :: u8;
          (code, s1) = SystemGetELog ELOG_EVP_BLOB_NETWORK_STATUS s
      in if code = ELOG_ERR then (EINVAL, s1)
         else
           let tmp = tmp OR http_status_bits status;
               code = (tmp AND 0xFC) OR (code AND 0x3);
               (ret, s2) = SystemSetELog env ELOG_EVP_BLOB_NETWORK_STATUS code s1;
               s3 = (if ret < 0 then emit (EVP_AGENT_ERR ''notifications.c'' 181
                       ''Failed to send ELOG: %d'' [FInt ret]) s2 else s2)
           in (ret, s3))"

definition other_error_bits :: "int \<Rightarrow> u8" where
  "other_error_bits error =
     (if error = EPERM then push_bit 2 1
      else if error = EIO then push_bit 2 2
      else if error = E2BIG then push_bit 2 3
      else if error = ENOMEM then push_bit 2 4
      else if error = EINVAL then push_bit 2 5
      else if error = EPROTO then push_bit 2 6
      else if error = ELOOP then push_bit 2 7
      else if error = ECONNABORTED then push_bit 2 8
      else if error = EHOSTUNREACH then push_bit 2 9
      else if error = ENOTSUP then push_bit 2 10
      else push_bit 2 11)"

definition elog_handler_blob_other_error ::
  "'e notif_env_scheme \<Rightarrow> int \<Rightarrow> 's log_state_scheme \<Rightarrow> int \<times> 's log_state_scheme" where
  "elog_handler_blob_other_error env error s =
     (let tmp = push_bit 6 3 :: u8;
          (blob_network_code, s1) = SystemGetELog ELOG_EVP_BLOB_NETWORK_STATUS s
      in if blob_network_code = ELOG_ERR then (EINVAL, s1)
         else
           let tmp = tmp OR other_error_bits error;
               blob_network_code = (tmp AND 0xFC) OR (blob_network_code AND 0x3);
               (_, s2) = SystemSetELog env ELOG_EVP_BLOB_NETWORK_STATUS blob_network_code s1
           in (0, s2))"

definition elog_handler_blob_result ::
  "'e notif_env_scheme \<Rightarrow> blob_result option \<Rightarrow> 's log_state_scheme \<Rightarrow> int \<times> 's log_state_scheme" where
  "elog_handler_blob_result env event s =
     (case event of
        None \<Rightarrow> (0, s)
      | Some notif \<Rightarrow>
          (0, snd (case br_result notif of
             EVP_BLOB_RESULT_SUCCESS \<Rightarrow> elog_handler_blob_success env s
           | EVP_BLOB_RESULT_ERROR_HTTP \<Rightarrow> elog_handler_blob_http_error env (br_http_status notif) s
           | _ \<Rightarrow> elog_handler_blob_other_error env (br_error notif) s)))"

section \<open>MQTT state changes\<close>

text \<open>\<open>tm_year + 1900\<close> is an \<open>int\<close> addition; a year that leaves the range is undefined.\<close>

definition check_sys_time ::
  "'e notif_env_scheme \<Rightarrow> 's notif_state_scheme \<Rightarrow> int \<times> 's notif_state_scheme" where
  "check_sys_time env s =
     (let (rv, tv_sec) = env_clock_gettime env (trace s);
          s1 = emit (OS Call_clock_gettime) s;
          (is_invalid_time, s4) =
            (if rv \<noteq> 0 then
               (True, emit (EVP_AGENT_ERR ''notifications.c'' 273 ''Failed to get system time: %d'' [FInt rv]) s1)
             else
               let ltime = env_localtime_r env (trace s1) tv_sec;
                   s2 = emit (OS (Call_localtime_r tv_sec)) s1;
                   s3 = (if tm_year ltime + 1900 > INT_MAX then undefined_behaviour s2 else s2)
               in if tm_year ltime + 1900 \<le> 2000 then
                    (True, emit (EVP_AGENT_ERR ''notifications.c'' 280
                       ''year <= 2000. %04d/%02d/%02d %02d:%02d:%02d''
                       [FInt (tm_year ltime + 1900), FInt (tm_mon ltime + 1), FInt (tm_mday ltime),
                        FInt (tm_hour ltime), FInt (tm_min ltime), FInt (tm_sec ltime)]) s3)
                  else (False, s3));
          s5 = (if is_invalid_time then s4\<lparr>g_mqtt_sync_error_invalid_time := True\<rparr> else s4)
      in (0, s5))"

definition elog_handler_mqtt_sync_success ::
  "'e notif_env_scheme \<Rightarrow> 's notif_state_scheme \<Rightarrow> int \<times> 's notif_state_scheme" where
  "elog_handler_mqtt_sync_success env s =
     (let (mqtt_code, s1) = SystemGetELog ELOG_EVP_MQTT_STATUS s
      in if mqtt_code = ELOG_ERR then (- EINVAL, s1)
         else
           let (blob_network_code, s2) = SystemGetELog ELOG_EVP_BLOB_NETWORK_STATUS s1
           in if blob_network_code = ELOG_ERR then (- EINVAL, s2)
              else
                let mqtt_code = mqtt_code AND NOT MQTT_RECONNECT_CNT_MASK;
                    mqtt_code = mqtt_code OR
                      (push_bit MQTT_RECONNECT_CNT_SHIFT (g_mqtt_reconnect_cnt s2) AND MQTT_RECONNECT_CNT_MASK);
                    mqtt_code = (if g_mqtt_sync_error_recv_buffer_too_small s2
                                 then mqtt_code OR MQTT_ERR_RECV_BUFF_MASK else mqtt_code);
                    mqtt_code = (if g_mqtt_sync_error_send_buffer_is_full s2
                                 then mqtt_code OR MQTT_ERR_SEND_BUFF_MASK else mqtt_code);
                    mqtt_code = (if g_mqtt_sync_error_invalid_time s2
                                 then mqtt_code OR INVALID_TIME_MASK
                                 else mqtt_code AND NOT INVALID_TIME_MASK);
                    blob_network_code = (if g_tcp_timer_error_timeout s2
                                 then blob_network_code OR 0x2
                                 else blob_network_code AND NOT 0x2);
                    s3 = s2\<lparr>g_mqtt_reconnect_cnt := 0,
                             g_mqtt_sync_error_recv_buffer_too_small := False,
                             g_mqtt_sync_error_send_buffer_is_full := False,
                             g_mqtt_sync_error_invalid_time := False,
                             g_tcp_timer_error_timeout := False\<rparr>;
                    (_, s4) = SystemSetELog env ELOG_EVP_MQTT_STATUS mqtt_code s3;
                    (_, s5) = SystemSetELog env ELOG_EVP_BLOB_NETWORK_STATUS blob_network_code s4
                in (0, emit (EVP_AGENT_INFO ''notifications.c'' 345
                      ''Update ELOG mqtt_code:%x blob_network_code:%x''
                      [FInt (uint mqtt_code), FInt (uint blob_network_code)]) s5))"

text \<open>\<open>!strncmp (reason, check, strlen (check))\<close> on an event that may be NULL.\<close>

definition event_starts_with ::
  "string option \<Rightarrow> string \<Rightarrow> 's io_state_scheme \<Rightarrow> bool \<times> 's io_state_scheme" where
  "event_starts_with event check s =
     (case event of
        None \<Rightarrow> (False, undefined_behaviour s)
      | Some reason \<Rightarrow> (strncmp reason check (length check) = 0, s))"

text \<open>The block \<open>if (event) { ... }\<close> of the failure handler.\<close>

definition mqtt_sync_fail_reason ::
  "string option \<Rightarrow> 's notif_state_scheme \<Rightarrow> 's notif_state_scheme" where
  "mqtt_sync_fail_reason event s =
     (if event \<noteq> None then
        let (m, s1) = event_starts_with event ''MQTT_ERROR_RECV_BUFFER_TOO_SMALL'' s;
            s2 = (if m then s1\<lparr>g_mqtt_sync_error_recv_buffer_too_small := True\<rparr> else s1);
            (m, s3) = event_starts_with event ''MQTT_ERROR_SEND_BUFFER_IS_FULL'' s2
        in if m then s3\<lparr>g_mqtt_sync_error_send_buffer_is_full := True\<rparr> else s3
      else s)"

definition elog_handler_mqtt_sync_fail ::
  "'e notif_env_scheme \<Rightarrow> string option \<Rightarrow> 's notif_state_scheme \<Rightarrow> int \<times> 's notif_state_scheme" where
  "elog_handler_mqtt_sync_fail env event s =
     (let (mqtt_code, s1) = SystemGetELog ELOG_EVP_MQTT_STATUS s
      in if mqtt_code = ELOG_ERR then
           (- EINVAL, emit (EVP_AGENT_ERR ''notifications.c'' 355 ''Failed to get ELOG_EVP_MQTT_STATUS'' []) s1)
         else
           let (_, s2) = check_sys_time env s1;
               s3 = mqtt_sync_fail_reason event s2;
               (ret, s4) =
                 (if g_mqtt_reconnect_cnt s3 = 0 then
                    let mqtt_code = mqtt_code AND NOT MQTT_RECONNECT_CNT_MASK;
                        mqtt_code = (if g_mqtt_sync_error_recv_buffer_too_small s3
                                     then mqtt_code AND NOT MQTT_ERR_RECV_BUFF_MASK else mqtt_code);
                        mqtt_code = (if g_mqtt_sync_error_send_buffer_is_full s3
                                     then mqtt_code AND NOT MQTT_ERR_SEND_BUFF_MASK else mqtt_code);
                        (ret, s3') = SystemSetELog env ELOG_EVP_MQTT_STATUS mqtt_code s3
                    in (ret, if ret < 0 then emit (EVP_AGENT_ERR ''notifications.c'' 391
                               ''Failed to send ELOG_EVP_MQTT_STATUS: %d'' [FInt ret]) s3' else s3')
                  else (0, s3));
               s5 = (if g_mqtt_reconnect_cnt s4 < MQTT_RECONNECT_CNT_MAX
                     then s4\<lparr>g_mqtt_reconnect_cnt := g_mqtt_reconnect_cnt s4 + 1\<rparr> else s4)
           in (ret, s5))"

definition elog_handler_mqtt_sync_result ::
  "'e notif_env_scheme \<Rightarrow> string option \<Rightarrow> 's notif_state_scheme \<Rightarrow> int \<times> 's notif_state_scheme" where
  "elog_handler_mqtt_sync_result env event s =
     (let (ok, s1) = event_starts_with event ''MQTT_OK'' s;
          (ret, s2) = (if ok then elog_handler_mqtt_sync_success env s1
                       else elog_handler_mqtt_sync_fail env event s1);
          s3 = (if ret < 0 then emit (EVP_AGENT_ERR ''notifications.c'' 431
                  ''failed to elog_handler_mqtt_sync result:%d'' [FInt ret]) s2 else s2)
      in (0, s3))"

definition elog_handler_network_error ::
  "'e notif_env_scheme \<Rightarrow> string option \<Rightarrow> 's log_state_scheme \<Rightarrow> int \<times> 's log_state_scheme" where
  "elog_handler_network_error env event s =
     (let (blob_network_code, s1) = SystemGetELog ELOG_EVP_BLOB_NETWORK_STATUS s
      in if blob_network_code = ELOG_ERR then (- EINVAL, s1)
         else
           let (m, s2) = event_starts_with event ''ssl_timeout'' s1;
               blob_network_code = (if m then blob_network_code OR 0x01 else blob_network_code);
               (ret, s3) = SystemSetELog env ELOG_EVP_BLOB_NETWORK_STATUS blob_network_code s2;
               s4 = (if ret < 0 then emit (EVP_AGENT_ERR ''notifications.c'' 455
                       ''Failed to send ELOG: %d'' [FInt ret]) s3 else s3)
           in (0, s4))"

section \<open>The event-log codes as fields\<close>

text \<open>
  The comment \<open>ELog Code Specification\<close> of \<open>notifications.c\<close> describes the two codes as
  fields. The views below read a byte in this layout; \<open>blob_code\<close> and \<open>mqtt_code\<close> assemble a
  byte from its fields. They translate no code: they are the vocabulary of the statements
  about it. The detail of an error is given by the name of the error, as in the code; the
  numbers the comment prints beside four of the names are not those of the platform.
\<close>

record blob_view =
  bv_class :: nat
  bv_detail :: nat
  bv_tcp_timeout :: bool
  bv_ssl_timeout :: bool

record mqtt_view =
  mv_reconnects :: nat
  mv_recv_too_small :: bool
  mv_send_full :: bool
  mv_time_invalid :: bool
  mv_time_modified :: bool

definition blob_fields :: "u8 \<Rightarrow> blob_view" where
  "blob_fields c = \<lparr>bv_class = unat (drop_bit 6 c), bv_detail = unat (drop_bit 2 c AND 0xF),
     bv_tcp_timeout = bit c 1, bv_ssl_timeout = bit c 0\<rparr>"

definition mqtt_fields :: "u8 \<Rightarrow> mqtt_view" where
  "mqtt_fields c = \<lparr>mv_reconnects = unat (drop_bit 4 c), mv_recv_too_small = bit c 3,
     mv_send_full = bit c 2, mv_time_invalid = bit c 1, mv_time_modified = bit c 0\<rparr>"

definition blob_code :: "blob_view \<Rightarrow> u8" where
  "blob_code v = word_of_nat (bv_class v * 64 + bv_detail v * 4 +
     of_bool (bv_tcp_timeout v) * 2 + of_bool (bv_ssl_timeout v))"

definition mqtt_code :: "mqtt_view \<Rightarrow> u8" where
  "mqtt_code v = word_of_nat (mv_reconnects v * 16 + of_bool (mv_recv_too_small v) * 8 +
     of_bool (mv_send_full v) * 4 + of_bool (mv_time_invalid v) * 2 + of_bool (mv_time_modified v))"

definition http_detail :: "u32 \<Rightarrow> nat" where
  "http_detail status = (case map_of [(200, 1), (400, 2), (401, 3), (403, 4), (404, 5), (500, 6),
       (502, 7), (503, 8)] status of Some d \<Rightarrow> d | None \<Rightarrow> 9)"

definition errno_detail :: "int \<Rightarrow> nat" where
  "errno_detail e = (case map_of [(EPERM, 1), (EIO, 2), (E2BIG, 3), (ENOMEM, 4), (EINVAL, 5),
       (EPROTO, 6), (ELOOP, 7), (ECONNABORTED, 8), (EHOSTUNREACH, 9), (ENOTSUP, 10)] e of
     Some d \<Rightarrow> d | None \<Rightarrow> 11)"

lemma u8_bound: "unat (c :: u8) < 256"
  using unsigned_less [of c, where ?'a = nat] by simp

lemma unat_fields:
  fixes c :: u8
  shows "unat (drop_bit n c) = unat c div 2 ^ n" "unat (drop_bit n c AND 0xF) = unat c div 2 ^ n mod 16"
    "bit c n \<longleftrightarrow> odd (unat c div 2 ^ n)"
proof -
  have "drop_bit n c AND 0xF = take_bit 4 (drop_bit n c)" by (simp add: take_bit_eq_mask mask_eq_exp_minus_1)
  moreover have "unat (take_bit 4 (drop_bit n c)) = unat c div 2 ^ n mod 16"
    by (simp only: unsigned_take_bit_eq unsigned_drop_bit_eq) (simp add: take_bit_eq_mod drop_bit_eq_div u8_bound)
  ultimately show "unat (drop_bit n c AND 0xF) = unat c div 2 ^ n mod 16" by simp
  show "unat (drop_bit n c) = unat c div 2 ^ n"
    by (simp only: unsigned_drop_bit_eq) (simp add: take_bit_eq_mod drop_bit_eq_div u8_bound)
  have "bit (unat c) n = bit c n" by (simp add: bit_unsigned_iff)
  then show "bit c n \<longleftrightarrow> odd (unat c div 2 ^ n)" by (simp add: bit_iff_odd [of "unat c"])
qed

lemma blob_fields_success:
  "blob_fields ((push_bit 6 1 AND 0xFC) OR ((b AND NOT 0x1) AND 0x3)) =
     (blob_fields b)\<lparr>bv_class := 1, bv_detail := 0, bv_ssl_timeout := False\<rparr>"
  by (simp add: blob_fields_def bit_simps drop_bit_and drop_bit_or bit.conj_disj_distrib2)

lemma blob_fields_http:
  "blob_fields (((push_bit 6 2 OR http_status_bits st) AND 0xFC) OR (b AND 0x3)) =
     (blob_fields b)\<lparr>bv_class := 2, bv_detail := http_detail st\<rparr>"
  by (simp add: blob_fields_def bit_simps drop_bit_and drop_bit_or bit.conj_disj_distrib2 http_status_bits_def http_detail_def)

lemma blob_fields_other:
  "blob_fields (((push_bit 6 3 OR other_error_bits e) AND 0xFC) OR (b AND 0x3)) =
     (blob_fields b)\<lparr>bv_class := 3, bv_detail := errno_detail e\<rparr>"
  by (simp add: blob_fields_def bit_simps drop_bit_and drop_bit_or bit.conj_disj_distrib2 other_error_bits_def errno_detail_def)

lemma blob_code_fields: "blob_code (blob_fields c) = c"
proof -
  have "n div 64 * 64 + n div 4 mod 16 * 4 + of_bool (odd (n div 2)) * 2 + of_bool (odd n) = n" for n :: nat
    unfolding of_bool_odd_eq_mod_2 div_mult2_eq [of n 4 16, simplified] div_mult2_eq [of n 2 2, simplified]
    using div_mult_mod_eq [of n 2] div_mult_mod_eq [of "n div 2" 2] div_mult_mod_eq [of "n div 2 div 2" 16]
    by linarith
  then show ?thesis
    by (simp add: blob_code_def blob_fields_def unat_fields)
qed

lemma mqtt_code_fields: "mqtt_code (mqtt_fields c) = c"
proof -
  have "n div 16 * 16 + of_bool (odd (n div 8)) * 8 + of_bool (odd (n div 4)) * 4 +
      of_bool (odd (n div 2)) * 2 + of_bool (odd n) = n" for n :: nat
    unfolding of_bool_odd_eq_mod_2 div_mult2_eq [of n 8 2, simplified] div_mult2_eq [of n 4 2, simplified]
      div_mult2_eq [of n 2 2, simplified]
    using div_mult_mod_eq [of n 2] div_mult_mod_eq [of "n div 2" 2] div_mult_mod_eq [of "n div 2 div 2" 2]
      div_mult_mod_eq [of "n div 2 div 2 div 2" 2] by linarith
  then show ?thesis
    by (simp add: mqtt_code_def mqtt_fields_def unat_fields)
qed

lemmas mqtt_masks =
  MQTT_RECONNECT_CNT_MASK_def MQTT_RECONNECT_CNT_SHIFT_def MQTT_ERR_RECV_BUFF_MASK_def
  MQTT_ERR_SEND_BUFF_MASK_def INVALID_TIME_MASK_def

lemma counter_field:
  assumes "unat (cnt :: u8) < 16"
  shows "unat (drop_bit 4 (push_bit 4 cnt) AND 0xF) = unat cnt"
  using assms by (simp only: unat_fields unsigned_push_bit_eq) (simp add: take_bit_eq_mod push_bit_eq_mult)

lemma mqtt_fields_ok:
  assumes "unat cnt < 16"
  shows "mqtt_fields
     (let c = (m AND NOT MQTT_RECONNECT_CNT_MASK) OR
            (push_bit MQTT_RECONNECT_CNT_SHIFT cnt AND MQTT_RECONNECT_CNT_MASK);
          c = (if r then c OR MQTT_ERR_RECV_BUFF_MASK else c);
          c = (if f then c OR MQTT_ERR_SEND_BUFF_MASK else c)
      in if i then c OR INVALID_TIME_MASK else c AND NOT INVALID_TIME_MASK) =
     \<lparr>mv_reconnects = unat cnt, mv_recv_too_small = mv_recv_too_small (mqtt_fields m) \<or> r,
      mv_send_full = mv_send_full (mqtt_fields m) \<or> f, mv_time_invalid = i,
      mv_time_modified = mv_time_modified (mqtt_fields m)\<rparr>"
  using counter_field [OF assms]
  by (simp add: mqtt_fields_def bit_simps drop_bit_and drop_bit_or bit.conj_disj_distrib2 Let_def mqtt_masks)

lemma mqtt_fields_fail:
  "mqtt_fields
     (let c = m AND NOT MQTT_RECONNECT_CNT_MASK;
          c = (if r then c AND NOT MQTT_ERR_RECV_BUFF_MASK else c)
      in if f then c AND NOT MQTT_ERR_SEND_BUFF_MASK else c) =
     (mqtt_fields m)\<lparr>mv_reconnects := 0,
        mv_recv_too_small := mv_recv_too_small (mqtt_fields m) \<and> \<not> r,
        mv_send_full := mv_send_full (mqtt_fields m) \<and> \<not> f\<rparr>"
  by (simp add: mqtt_fields_def bit_simps drop_bit_and drop_bit_or bit.conj_disj_distrib2 Let_def mqtt_masks)

section \<open>The handlers on fields\<close>

text \<open>
  What the handlers do, on fields instead of masks and shifts: the two codes as views, the
  number of failures since the last recovery (at most 15) and the four pending conditions.
  This is a restatement of the code, not a specification of it; the properties below are
  about runs of the handlers and are proved by induction over it.
\<close>

record status_spec =
  st_blob :: blob_view
  st_mqtt :: mqtt_view
  st_failures :: nat
  st_recv :: bool
  st_send :: bool
  st_time :: bool
  st_tcp :: bool

datatype status_event =
    Blob_ok | Blob_http u32 | Blob_errno int | Mqtt_ok | Mqtt_fail bool bool bool | Ssl_timeout | No_effect

fun status_step :: "status_event \<Rightarrow> status_spec \<Rightarrow> status_spec" where
  "status_step Blob_ok st =
     st\<lparr>st_blob := (st_blob st)\<lparr>bv_class := 1, bv_detail := 0, bv_ssl_timeout := False\<rparr>\<rparr>"
| "status_step (Blob_http n) st =
     st\<lparr>st_blob := (st_blob st)\<lparr>bv_class := 2, bv_detail := http_detail n\<rparr>\<rparr>"
| "status_step (Blob_errno e) st =
     st\<lparr>st_blob := (st_blob st)\<lparr>bv_class := 3, bv_detail := errno_detail e\<rparr>\<rparr>"
| "status_step Mqtt_ok st =
     \<lparr>st_blob = (st_blob st)\<lparr>bv_tcp_timeout := st_tcp st\<rparr>,
      st_mqtt = \<lparr>mv_reconnects = st_failures st,
                 mv_recv_too_small = mv_recv_too_small (st_mqtt st) \<or> st_recv st,
                 mv_send_full = mv_send_full (st_mqtt st) \<or> st_send st,
                 mv_time_invalid = st_time st, mv_time_modified = mv_time_modified (st_mqtt st)\<rparr>,
      st_failures = 0, st_recv = False, st_send = False, st_time = False, st_tcp = False\<rparr>"
| "status_step (Mqtt_fail recv send invalid) st =
     (let r = st_recv st \<or> recv; f = st_send st \<or> send; m = st_mqtt st
      in st\<lparr>st_recv := r, st_send := f, st_time := st_time st \<or> invalid,
            st_mqtt := (if st_failures st = 0
              then m\<lparr>mv_reconnects := 0, mv_recv_too_small := mv_recv_too_small m \<and> \<not> r,
                     mv_send_full := mv_send_full m \<and> \<not> f\<rparr> else m),
            st_failures := min 15 (Suc (st_failures st))\<rparr>)"
| "status_step Ssl_timeout st = st\<lparr>st_blob := (st_blob st)\<lparr>bv_ssl_timeout := True\<rparr>\<rparr>"
| "status_step No_effect st = st"

text \<open>The notifications and what they mean. The clock is read during the handling of a failure.\<close>

datatype elog_notification =
    Blob_result "blob_result option" | Mqtt_sync "string option" | Network_error "string option"

definition elog_notify ::
  "'e notif_env_scheme \<Rightarrow> elog_notification \<Rightarrow> 's notif_state_scheme \<Rightarrow> 's notif_state_scheme" where
  "elog_notify env n s =
     (case n of
        Blob_result e \<Rightarrow> snd (elog_handler_blob_result env e s)
      | Mqtt_sync e \<Rightarrow> snd (elog_handler_mqtt_sync_result env e s)
      | Network_error e \<Rightarrow> snd (elog_handler_network_error env e s))"

definition clock_invalid :: "'e notif_env_scheme \<Rightarrow> history \<Rightarrow> bool" where
  "clock_invalid env h \<longleftrightarrow>
     (let (rv, sec) = env_clock_gettime env h
      in rv \<noteq> 0 \<or> tm_year (env_localtime_r env (h @ [OS Call_clock_gettime]) sec) + 1900 \<le> 2000)"

definition starts_with :: "string option \<Rightarrow> string \<Rightarrow> bool" where
  "starts_with event p \<longleftrightarrow> (case event of None \<Rightarrow> False | Some r \<Rightarrow> prefix p r)"

definition elog_get_calls :: history where
  "elog_get_calls = [OS (Call_mutex_lock elog_entry_mutex), OS (Call_mutex_unlock elog_entry_mutex)]"

definition status_event_of ::
  "'e notif_env_scheme \<Rightarrow> elog_notification \<Rightarrow> 's notif_state_scheme \<Rightarrow> status_event" where
  "status_event_of env n s =
     (case n of
        Blob_result None \<Rightarrow> No_effect
      | Blob_result (Some r) \<Rightarrow>
          (case br_result r of
             EVP_BLOB_RESULT_SUCCESS \<Rightarrow> Blob_ok
           | EVP_BLOB_RESULT_ERROR_HTTP \<Rightarrow> Blob_http (br_http_status r)
           | _ \<Rightarrow> Blob_errno (br_error r))
      | Mqtt_sync e \<Rightarrow>
          if starts_with e ''MQTT_OK'' then Mqtt_ok
          else Mqtt_fail (starts_with e ''MQTT_ERROR_RECV_BUFFER_TOO_SMALL'')
                 (starts_with e ''MQTT_ERROR_SEND_BUFFER_IS_FULL'')
                 (clock_invalid env (trace s @ elog_get_calls))
      | Network_error e \<Rightarrow> if starts_with e ''ssl_timeout'' then Ssl_timeout else No_effect)"

definition notif_abs :: "'s notif_state_scheme \<Rightarrow> status_spec" where
  "notif_abs s =
     \<lparr>st_blob = blob_fields (the (elog_map s ELOG_EVP_BLOB_NETWORK_STATUS)),
      st_mqtt = mqtt_fields (the (elog_map s ELOG_EVP_MQTT_STATUS)),
      st_failures = unat (g_mqtt_reconnect_cnt s),
      st_recv = g_mqtt_sync_error_recv_buffer_too_small s,
      st_send = g_mqtt_sync_error_send_buffer_is_full s,
      st_time = g_mqtt_sync_error_invalid_time s,
      st_tcp = g_tcp_timer_error_timeout s\<rparr>"

text \<open>
  The invariant: both components are registered, the counter fits its four bits, and the codes
  use no value that the specification leaves out. It keeps both codes away from \<open>0xFF\<close>, which
  \<open>SystemGetELog\<close> also returns for an unknown component.
\<close>

definition blob_wf :: "u8 \<Rightarrow> bool" where
  "blob_wf b \<longleftrightarrow> bv_class (blob_fields b) \<in> {1, 2, 3} \<and> bv_detail (blob_fields b) \<le> 11"

definition notif_inv :: "'s notif_state_scheme \<Rightarrow> bool" where
  "notif_inv s \<longleftrightarrow> elog_wf s \<and>
     (\<exists>b. elog_map s ELOG_EVP_BLOB_NETWORK_STATUS = Some b \<and> blob_wf b) \<and>
     (\<exists>m. elog_map s ELOG_EVP_MQTT_STATUS = Some m \<and> \<not> bit m 0) \<and>
     unat (g_mqtt_reconnect_cnt s) \<le> 15"

section \<open>Lemmas on the handlers\<close>

lemma elog_components [simp]:
  "ELOG_EVP_BLOB_NETWORK_STATUS \<noteq> ELOG_EVP_MQTT_STATUS"
  "ELOG_EVP_MQTT_STATUS \<noteq> ELOG_EVP_BLOB_NETWORK_STATUS"
  "ELOG_EVP_WASM_STATUS \<noteq> ELOG_EVP_MQTT_STATUS"
  "ELOG_EVP_WASM_STATUS \<noteq> ELOG_EVP_BLOB_NETWORK_STATUS"
  "ELOG_EVP_BLOB_NETWORK_STATUS \<noteq> ELOG_EVP_WASM_STATUS"
  "ELOG_EVP_MQTT_STATUS \<noteq> ELOG_EVP_WASM_STATUS"
  by (simp_all add: ELOG_EVP_BLOB_NETWORK_STATUS_def ELOG_EVP_MQTT_STATUS_def ELOG_EVP_WASM_STATUS_def)

lemma blob_wf_not_err: "blob_wf b \<Longrightarrow> b \<noteq> ELOG_ERR"
  by (auto simp: blob_wf_def blob_fields_def ELOG_ERR_def)

lemma mqtt_not_err: "\<not> bit m 0 \<Longrightarrow> m \<noteq> ELOG_ERR"
  by (auto simp: ELOG_ERR_def)

lemma http_detail_le: "http_detail st \<le> 11"
  by (simp add: http_detail_def upt_rec)

lemma errno_detail_le: "errno_detail e \<le> 11"
  by (simp add: errno_detail_def upt_rec)

lemma elog_emit [simp]:
  "elog_map (emit c s) = elog_map s" "elog_wf (emit c s) = elog_wf s"
  "elog_map (undefined_behaviour s) = elog_map s" "elog_wf (undefined_behaviour s) = elog_wf s"
  by (simp_all add: emit_def undefined_behaviour_def elog_map_def elog_wf_def)

lemma notif_globals_emit [simp]:
  "g_mqtt_reconnect_cnt (emit c s) = g_mqtt_reconnect_cnt s"
  "g_mqtt_sync_error_recv_buffer_too_small (emit c s) = g_mqtt_sync_error_recv_buffer_too_small s"
  "g_mqtt_sync_error_send_buffer_is_full (emit c s) = g_mqtt_sync_error_send_buffer_is_full s"
  "g_mqtt_sync_error_invalid_time (emit c s) = g_mqtt_sync_error_invalid_time s"
  "g_tcp_timer_error_timeout (emit c s) = g_tcp_timer_error_timeout s"
  "g_mqtt_reconnect_cnt (undefined_behaviour s) = g_mqtt_reconnect_cnt s"
  "g_mqtt_sync_error_recv_buffer_too_small (undefined_behaviour s) = g_mqtt_sync_error_recv_buffer_too_small s"
  "g_mqtt_sync_error_send_buffer_is_full (undefined_behaviour s) = g_mqtt_sync_error_send_buffer_is_full s"
  "g_mqtt_sync_error_invalid_time (undefined_behaviour s) = g_mqtt_sync_error_invalid_time s"
  "g_tcp_timer_error_timeout (undefined_behaviour s) = g_tcp_timer_error_timeout s"
  by (simp_all add: emit_def undefined_behaviour_def)

lemma notif_globals_set [simp]:
  assumes "elog_wf s"
  shows "g_mqtt_reconnect_cnt (snd (SystemSetELog env c v s)) = g_mqtt_reconnect_cnt s"
    "g_mqtt_sync_error_recv_buffer_too_small (snd (SystemSetELog env c v s)) = g_mqtt_sync_error_recv_buffer_too_small s"
    "g_mqtt_sync_error_send_buffer_is_full (snd (SystemSetELog env c v s)) = g_mqtt_sync_error_send_buffer_is_full s"
    "g_mqtt_sync_error_invalid_time (snd (SystemSetELog env c v s)) = g_mqtt_sync_error_invalid_time s"
    "g_tcp_timer_error_timeout (snd (SystemSetELog env c v s)) = g_tcp_timer_error_timeout s"
  using assms by (simp_all add: SystemSetELog_eq)

lemma elog_notif_update [simp]:
  "elog_map (s\<lparr>g_mqtt_reconnect_cnt := n\<rparr>) = elog_map s"
  "elog_map (s\<lparr>g_mqtt_sync_error_recv_buffer_too_small := b\<rparr>) = elog_map s"
  "elog_map (s\<lparr>g_mqtt_sync_error_send_buffer_is_full := b\<rparr>) = elog_map s"
  "elog_map (s\<lparr>g_mqtt_sync_error_invalid_time := b\<rparr>) = elog_map s"
  "elog_map (s\<lparr>g_tcp_timer_error_timeout := b\<rparr>) = elog_map s"
  "elog_wf (s\<lparr>g_mqtt_reconnect_cnt := n\<rparr>) = elog_wf s"
  "elog_wf (s\<lparr>g_mqtt_sync_error_recv_buffer_too_small := b\<rparr>) = elog_wf s"
  "elog_wf (s\<lparr>g_mqtt_sync_error_send_buffer_is_full := b\<rparr>) = elog_wf s"
  "elog_wf (s\<lparr>g_mqtt_sync_error_invalid_time := b\<rparr>) = elog_wf s"
  "elog_wf (s\<lparr>g_tcp_timer_error_timeout := b\<rparr>) = elog_wf s"
  by (simp_all add: elog_map_def elog_wf_def)

definition notif_globals :: "'s notif_state_scheme \<Rightarrow> u8 \<times> bool \<times> bool \<times> bool \<times> bool" where
  "notif_globals s = (g_mqtt_reconnect_cnt s, g_mqtt_sync_error_recv_buffer_too_small s,
     g_mqtt_sync_error_send_buffer_is_full s, g_mqtt_sync_error_invalid_time s, g_tcp_timer_error_timeout s)"

text \<open>A handler that writes one blob code and keeps the globals.\<close>

lemma blob_update:
  assumes "notif_inv s" "elog_wf s'" "elog_map s' = (elog_map s)(ELOG_EVP_BLOB_NETWORK_STATUS \<mapsto> b)"
    "notif_globals s' = notif_globals s" "blob_wf b"
  shows "notif_inv s' \<and> notif_abs s' = (notif_abs s)\<lparr>st_blob := blob_fields b\<rparr>"
  using assms by (auto simp: notif_inv_def notif_abs_def notif_globals_def)

lemmas handler_simps = case_prod_beta Let_def SystemGetELog_eq elog.store_laws notif_globals_def

lemma blob_success_refines:
  assumes "notif_inv s"
  shows "notif_inv (snd (elog_handler_blob_success env s)) \<and>
    notif_abs (snd (elog_handler_blob_success env s)) = status_step Blob_ok (notif_abs s)"
proof -
  obtain b where b: "elog_wf s" "elog_map s ELOG_EVP_BLOB_NETWORK_STATUS = Some b" "blob_wf b"
    using assms by (auto simp: notif_inv_def)
  let ?b = "(push_bit 6 1 AND 0xFC) OR ((b AND NOT 0x1) AND 0x3) :: u8"
  have "blob_wf ?b" using blob_fields_success [of b] by (simp only: blob_wf_def) simp
  with assms b blob_update [of s "snd (elog_handler_blob_success env s)" ?b] show ?thesis
    by (simp only: blob_fields_success) (simp add: elog_handler_blob_success_def handler_simps notif_abs_def)
qed

lemma blob_http_refines:
  assumes "notif_inv s"
  shows "notif_inv (snd (elog_handler_blob_http_error env st s)) \<and>
    notif_abs (snd (elog_handler_blob_http_error env st s)) = status_step (Blob_http st) (notif_abs s)"
proof -
  obtain b where b: "elog_wf s" "elog_map s ELOG_EVP_BLOB_NETWORK_STATUS = Some b" "blob_wf b"
    using assms by (auto simp: notif_inv_def)
  let ?b = "((push_bit 6 2 OR http_status_bits st) AND 0xFC) OR (b AND 0x3) :: u8"
  have "blob_wf ?b" using blob_fields_http [of st b] http_detail_le by (simp only: blob_wf_def) simp
  with assms b blob_wf_not_err [OF b(3)] blob_update [of s "snd (elog_handler_blob_http_error env st s)" ?b]
  show ?thesis
    by (simp only: blob_fields_http) (simp add: elog_handler_blob_http_error_def handler_simps notif_abs_def)
qed

lemma blob_other_refines:
  assumes "notif_inv s"
  shows "notif_inv (snd (elog_handler_blob_other_error env e s)) \<and>
    notif_abs (snd (elog_handler_blob_other_error env e s)) = status_step (Blob_errno e) (notif_abs s)"
proof -
  obtain b where b: "elog_wf s" "elog_map s ELOG_EVP_BLOB_NETWORK_STATUS = Some b" "blob_wf b"
    using assms by (auto simp: notif_inv_def)
  let ?b = "((push_bit 6 3 OR other_error_bits e) AND 0xFC) OR (b AND 0x3) :: u8"
  have "blob_wf ?b" using blob_fields_other [of e b] errno_detail_le by (simp only: blob_wf_def) simp
  with assms b blob_wf_not_err [OF b(3)] blob_update [of s "snd (elog_handler_blob_other_error env e s)" ?b]
  show ?thesis
    by (simp only: blob_fields_other) (simp add: elog_handler_blob_other_error_def handler_simps notif_abs_def)
qed

lemma event_starts_with_eq:
  assumes "NUL \<notin> set p"
  shows "event_starts_with event p s =
    (starts_with event p, if event = None then undefined_behaviour s else s)"
  using strncmp_prefix [OF assms] by (simp add: event_starts_with_def starts_with_def split: option.splits)

lemma network_error_refines:
  assumes "notif_inv s"
  shows "notif_inv (snd (elog_handler_network_error env e s)) \<and>
    notif_abs (snd (elog_handler_network_error env e s)) =
      status_step (if starts_with e ''ssl_timeout'' then Ssl_timeout else No_effect) (notif_abs s)"
proof -
  obtain b where b: "elog_wf s" "elog_map s ELOG_EVP_BLOB_NETWORK_STATUS = Some b" "blob_wf b"
    using assms by (auto simp: notif_inv_def)
  let ?b = "if starts_with e ''ssl_timeout'' then b OR 0x01 else b"
  have f: "blob_fields ?b = (if starts_with e ''ssl_timeout'' then (blob_fields b)\<lparr>bv_ssl_timeout := True\<rparr>
      else blob_fields b)"
    by (simp add: blob_fields_def bit_simps drop_bit_or bit.conj_disj_distrib2)
  then have "blob_wf ?b" using b(3) by (simp add: blob_wf_def)
  with assms b blob_wf_not_err [OF b(3)] f blob_update [of s "snd (elog_handler_network_error env e s)" ?b]
  show ?thesis
    by (cases e) (simp_all add: elog_handler_network_error_def handler_simps event_starts_with_eq
        notif_abs_def split: if_splits)
qed


lemma check_sys_time_eq:
  "elog_map (snd (check_sys_time env s)) = elog_map s"
  "elog_wf (snd (check_sys_time env s)) = elog_wf s"
  "notif_globals (snd (check_sys_time env s)) = notif_globals
     (s\<lparr>g_mqtt_sync_error_invalid_time := g_mqtt_sync_error_invalid_time s \<or> clock_invalid env (trace s)\<rparr>)"
  by (simp_all add: check_sys_time_def clock_invalid_def Let_def case_prod_beta notif_globals_def)

lemma drop_bit_6_mask: "drop_bit 6 (b :: u8) AND 3 = drop_bit 6 b"
proof -
  have "drop_bit 6 b AND 3 = take_bit 2 (drop_bit 6 b)" by (simp add: take_bit_eq_mask mask_eq_exp_minus_1)
  also have "\<dots> = drop_bit 6 (take_bit 8 b)" by (simp add: drop_bit_take_bit)
  also have "take_bit 8 b = b" by (simp add: take_bit_word_eq_self)
  finally show ?thesis .
qed

lemma mqtt_ok_refines:
  assumes "notif_inv s"
  shows "notif_inv (snd (elog_handler_mqtt_sync_success env s)) \<and>
    notif_abs (snd (elog_handler_mqtt_sync_success env s)) = status_step Mqtt_ok (notif_abs s)"
proof -
  obtain b m where b: "elog_wf s" "elog_map s ELOG_EVP_BLOB_NETWORK_STATUS = Some b" "blob_wf b"
    and m: "elog_map s ELOG_EVP_MQTT_STATUS = Some m" "\<not> bit m 0" and c: "unat (g_mqtt_reconnect_cnt s) < 16"
    using assms by (auto simp: notif_inv_def)
  let ?b = "if g_tcp_timer_error_timeout s then b OR 0x2 else b AND NOT 0x2"
  let ?m = "let c = (m AND NOT MQTT_RECONNECT_CNT_MASK) OR
            (push_bit MQTT_RECONNECT_CNT_SHIFT (g_mqtt_reconnect_cnt s) AND MQTT_RECONNECT_CNT_MASK);
          c = (if g_mqtt_sync_error_recv_buffer_too_small s then c OR MQTT_ERR_RECV_BUFF_MASK else c);
          c = (if g_mqtt_sync_error_send_buffer_is_full s then c OR MQTT_ERR_SEND_BUFF_MASK else c)
      in if g_mqtt_sync_error_invalid_time s then c OR INVALID_TIME_MASK else c AND NOT INVALID_TIME_MASK"
  have fb: "blob_fields ?b = (blob_fields b)\<lparr>bv_tcp_timeout := g_tcp_timer_error_timeout s\<rparr>"
    by (simp add: blob_fields_def bit_simps drop_bit_or drop_bit_and bit.conj_disj_distrib2
        drop_bit_6_mask and.assoc)
  then have wb: "blob_wf ?b" using b(3) by (simp add: blob_wf_def)
  note fm = mqtt_fields_ok [OF c, of m "g_mqtt_sync_error_recv_buffer_too_small s"
      "g_mqtt_sync_error_send_buffer_is_full s" "g_mqtt_sync_error_invalid_time s"]
  then have wm: "\<not> bit ?m 0" using m(2) by (simp add: mqtt_fields_def)
  let ?s = "snd (elog_handler_mqtt_sync_success env s)"
  have "elog_wf ?s \<and> elog_map ?s = (elog_map s)(ELOG_EVP_MQTT_STATUS \<mapsto> ?m, ELOG_EVP_BLOB_NETWORK_STATUS \<mapsto> ?b) \<and>
      notif_globals ?s = (0, False, False, False, False)"
    using b m blob_wf_not_err [OF b(3)] mqtt_not_err [OF m(2)]
    by (simp add: elog_handler_mqtt_sync_success_def handler_simps)
  with wb wm fb fm b m show ?thesis
    by (simp add: notif_inv_def notif_abs_def notif_globals_def del: Let_def)
qed

text \<open>The state of a failure handler before it looks at the counter.\<close>

definition mqtt_fail_flags ::
  "'e notif_env_scheme \<Rightarrow> string option \<Rightarrow> 's notif_state_scheme \<Rightarrow> 's notif_state_scheme" where
  "mqtt_fail_flags env event s =
     mqtt_sync_fail_reason event (snd (check_sys_time env (s\<lparr>trace := trace s @ elog_get_calls\<rparr>)))"

lemma mqtt_sync_fail_reason_eq:
  "mqtt_sync_fail_reason event s =
     (let s2 = (if starts_with event ''MQTT_ERROR_RECV_BUFFER_TOO_SMALL''
                 then s\<lparr>g_mqtt_sync_error_recv_buffer_too_small := True\<rparr> else s)
      in if starts_with event ''MQTT_ERROR_SEND_BUFFER_IS_FULL''
         then s2\<lparr>g_mqtt_sync_error_send_buffer_is_full := True\<rparr> else s2)"
proof (cases event)
  case None
  then show ?thesis by (simp add: mqtt_sync_fail_reason_def starts_with_def)
next
  case (Some r)
  then show ?thesis by (simp add: mqtt_sync_fail_reason_def event_starts_with_eq Let_def)
qed

lemma mqtt_fail_flags_eq:
  "elog_map (mqtt_fail_flags env e s) = elog_map s" "elog_wf (mqtt_fail_flags env e s) = elog_wf s"
  "notif_globals (mqtt_fail_flags env e s) = (g_mqtt_reconnect_cnt s,
     g_mqtt_sync_error_recv_buffer_too_small s \<or> starts_with e ''MQTT_ERROR_RECV_BUFFER_TOO_SMALL'',
     g_mqtt_sync_error_send_buffer_is_full s \<or> starts_with e ''MQTT_ERROR_SEND_BUFFER_IS_FULL'',
     g_mqtt_sync_error_invalid_time s \<or> clock_invalid env (trace s @ elog_get_calls),
     g_tcp_timer_error_timeout s)"
  using check_sys_time_eq [of env "s\<lparr>trace := trace s @ elog_get_calls\<rparr>"]
  by (simp_all add: mqtt_fail_flags_def mqtt_sync_fail_reason_eq Let_def notif_globals_def)

definition mqtt_fail_code :: "'s notif_state_scheme \<Rightarrow> u8 \<Rightarrow> u8" where
  "mqtt_fail_code s m =
     (let c = m AND NOT MQTT_RECONNECT_CNT_MASK;
          c = (if g_mqtt_sync_error_recv_buffer_too_small s then c AND NOT MQTT_ERR_RECV_BUFF_MASK else c)
      in if g_mqtt_sync_error_send_buffer_is_full s then c AND NOT MQTT_ERR_SEND_BUFF_MASK else c)"

lemma mqtt_sync_fail_eq:
  assumes "elog_wf s" "elog_map s ELOG_EVP_MQTT_STATUS = Some m" "m \<noteq> ELOG_ERR"
  shows "elog_handler_mqtt_sync_fail env e s =
    (let s3 = mqtt_fail_flags env e s;
         (ret, s4) = (if g_mqtt_reconnect_cnt s3 = 0 then
             let (ret, s3') = SystemSetELog env ELOG_EVP_MQTT_STATUS (mqtt_fail_code s3 m) s3
             in (ret, if ret < 0 then emit (EVP_AGENT_ERR ''notifications.c'' 391
                     ''Failed to send ELOG_EVP_MQTT_STATUS: %d'' [FInt ret]) s3' else s3')
           else (0, s3));
         s5 = (if g_mqtt_reconnect_cnt s4 < MQTT_RECONNECT_CNT_MAX
               then s4\<lparr>g_mqtt_reconnect_cnt := g_mqtt_reconnect_cnt s4 + 1\<rparr> else s4)
     in (ret, s5))"
proof -
  have get: "SystemGetELog ELOG_EVP_MQTT_STATUS s = (m, s\<lparr>trace := trace s @ elog_get_calls\<rparr>)"
    using assms by (simp add: SystemGetELog_eq elog_get_calls_def)
  show ?thesis
    using assms(3) unfolding elog_handler_mqtt_sync_fail_def get
    by (simp add: mqtt_fail_flags_def mqtt_fail_code_def case_prod_beta Let_def)
qed

lemma counter_step:
  assumes "unat (c :: u8) \<le> 15"
  shows "unat (if c < MQTT_RECONNECT_CNT_MAX then c + 1 else c) = min 15 (Suc (unat c))"
proof -
  have "c < 0xF \<longleftrightarrow> unat c < 15" by (simp add: word_less_nat_alt)
  moreover have "unat c < 15 \<Longrightarrow> unat (c + 1) = Suc (unat c)"
    by (simp add: unat_word_ariths)
  ultimately show ?thesis using assms by (auto simp: MQTT_RECONNECT_CNT_MAX_def)
qed

lemma mqtt_fail_refines:
  assumes "notif_inv s"
  shows "notif_inv (snd (elog_handler_mqtt_sync_fail env e s)) \<and>
    notif_abs (snd (elog_handler_mqtt_sync_fail env e s)) =
      status_step (Mqtt_fail (starts_with e ''MQTT_ERROR_RECV_BUFFER_TOO_SMALL'')
        (starts_with e ''MQTT_ERROR_SEND_BUFFER_IS_FULL'')
        (clock_invalid env (trace s @ elog_get_calls))) (notif_abs s)"
proof -
  obtain b m where b: "elog_wf s" "elog_map s ELOG_EVP_BLOB_NETWORK_STATUS = Some b" "blob_wf b"
    and m: "elog_map s ELOG_EVP_MQTT_STATUS = Some m" "\<not> bit m 0" and c: "unat (g_mqtt_reconnect_cnt s) \<le> 15"
    using assms by (auto simp: notif_inv_def)
  let ?s3 = "mqtt_fail_flags env e s"
  let ?s = "snd (elog_handler_mqtt_sync_fail env e s)"
  let ?m = "if g_mqtt_reconnect_cnt s = 0 then mqtt_fail_code ?s3 m else m"
  note f = mqtt_fail_flags_eq [of env e s, unfolded notif_globals_def prod.inject]
  have post: "elog_wf ?s \<and> elog_map ?s = (elog_map s)(ELOG_EVP_MQTT_STATUS \<mapsto> ?m) \<and>
      notif_globals ?s = (if g_mqtt_reconnect_cnt s < MQTT_RECONNECT_CNT_MAX
        then g_mqtt_reconnect_cnt s + 1 else g_mqtt_reconnect_cnt s, snd (notif_globals ?s3))"
    unfolding mqtt_sync_fail_eq [OF b(1) m(1) mqtt_not_err [OF m(2)]]
    using b m f by (simp add: case_prod_beta Let_def elog.store_laws notif_globals_def fun_upd_idem)
  have fm: "mqtt_fields (mqtt_fail_code ?s3 m) = (mqtt_fields m)\<lparr>mv_reconnects := 0,
        mv_recv_too_small := mv_recv_too_small (mqtt_fields m) \<and> \<not> g_mqtt_sync_error_recv_buffer_too_small ?s3,
        mv_send_full := mv_send_full (mqtt_fields m) \<and> \<not> g_mqtt_sync_error_send_buffer_is_full ?s3\<rparr>"
    unfolding mqtt_fail_code_def by (rule mqtt_fields_fail)
  then have "\<not> bit (mqtt_fail_code ?s3 m) 0" using m(2) by (simp add: mqtt_fields_def)
  with post b m c f fm counter_step [OF c] show ?thesis
    by (auto simp: notif_inv_def notif_abs_def notif_globals_def Let_def unat_eq_zero)
qed

lemma mqtt_result_refines:
  assumes "notif_inv s"
  shows "notif_inv (snd (elog_handler_mqtt_sync_result env e s)) \<and>
    notif_abs (snd (elog_handler_mqtt_sync_result env e s)) =
      status_step (status_event_of env (Mqtt_sync e) s) (notif_abs s)"
proof -
  let ?s = "if e = None then undefined_behaviour s else s"
  have inv: "notif_inv ?s" and abs: "notif_abs ?s = notif_abs s" and tr: "trace ?s = trace s"
    using assms by (simp_all add: notif_inv_def notif_abs_def)
  have emit: "notif_inv (emit c t) = notif_inv t" "notif_abs (emit c t) = notif_abs t" for c t
    by (simp_all add: notif_inv_def notif_abs_def)
  show ?thesis
    using mqtt_ok_refines [OF inv, of env] mqtt_fail_refines [OF inv, of env e] abs tr
    by (simp add: elog_handler_mqtt_sync_result_def status_event_of_def case_prod_beta Let_def
        event_starts_with_eq emit)
qed

text \<open>Every notification.\<close>

lemma elog_notify_refines:
  assumes "notif_inv s"
  shows "notif_inv (elog_notify env n s) \<and>
    notif_abs (elog_notify env n s) = status_step (status_event_of env n s) (notif_abs s)"
proof (cases n)
  case (Blob_result e)
  then show ?thesis
    using assms blob_success_refines [OF assms, of env] blob_http_refines [OF assms, of env]
      blob_other_refines [OF assms, of env]
    by (simp add: elog_notify_def status_event_of_def elog_handler_blob_result_def
        split: option.splits blob_result_kind.splits)
next
  case (Mqtt_sync e)
  with mqtt_result_refines [OF assms, of env e] show ?thesis by (simp add: elog_notify_def)
next
  case (Network_error e)
  with network_error_refines [OF assms, of env e] show ?thesis
    by (simp add: elog_notify_def status_event_of_def)
qed

section \<open>Runs of notifications\<close>

fun elog_notify_run ::
  "'e notif_env_scheme \<Rightarrow> elog_notification list \<Rightarrow> 's notif_state_scheme \<Rightarrow> 's notif_state_scheme" where
  "elog_notify_run env [] s = s"
| "elog_notify_run env (n # ns) s = elog_notify_run env ns (elog_notify env n s)"

fun status_events ::
  "'e notif_env_scheme \<Rightarrow> elog_notification list \<Rightarrow> 's notif_state_scheme \<Rightarrow> status_event list" where
  "status_events env [] s = []"
| "status_events env (n # ns) s = status_event_of env n s # status_events env ns (elog_notify env n s)"

lemma elog_notify_run_refines:
  "notif_inv s \<Longrightarrow> notif_inv (elog_notify_run env ns s) \<and>
     notif_abs (elog_notify_run env ns s) = fold status_step (status_events env ns s) (notif_abs s)"
  by (induction ns arbitrary: s) (simp_all add: elog_notify_refines)

fun is_failure :: "status_event \<Rightarrow> bool" where
  "is_failure (Mqtt_fail r f i) = True"
| "is_failure _ = False"

fun is_invalid_clock :: "status_event \<Rightarrow> bool" where
  "is_invalid_clock (Mqtt_fail r f i) = i"
| "is_invalid_clock _ = False"

fun is_recv_error :: "status_event \<Rightarrow> bool" where
  "is_recv_error (Mqtt_fail r f i) = r"
| "is_recv_error _ = False"

fun is_send_error :: "status_event \<Rightarrow> bool" where
  "is_send_error (Mqtt_fail r f i) = f"
| "is_send_error _ = False"

text \<open>The pending conditions collect what happens between two recoveries.\<close>

lemma pending_collect:
  assumes "Mqtt_ok \<notin> set evs" "st_failures st \<le> 15"
  shows "st_failures (fold status_step evs st) = min 15 (st_failures st + length (filter is_failure evs))"
    and "st_time (fold status_step evs st) \<longleftrightarrow> st_time st \<or> (\<exists>e \<in> set evs. is_invalid_clock e)"
    and "st_recv (fold status_step evs st) \<longleftrightarrow> st_recv st \<or> (\<exists>e \<in> set evs. is_recv_error e)"
    and "st_send (fold status_step evs st) \<longleftrightarrow> st_send st \<or> (\<exists>e \<in> set evs. is_send_error e)"
    and "st_tcp (fold status_step evs st) = st_tcp st"
    and "mv_time_modified (st_mqtt (fold status_step evs st)) = mv_time_modified (st_mqtt st)"
proof -
  have step: "st_failures (status_step e st) = min 15 (st_failures st + length (filter is_failure [e])) \<and>
      (st_time (status_step e st) \<longleftrightarrow> st_time st \<or> is_invalid_clock e) \<and>
      (st_recv (status_step e st) \<longleftrightarrow> st_recv st \<or> is_recv_error e) \<and>
      (st_send (status_step e st) \<longleftrightarrow> st_send st \<or> is_send_error e) \<and>
      st_tcp (status_step e st) = st_tcp st \<and>
      mv_time_modified (st_mqtt (status_step e st)) = mv_time_modified (st_mqtt st)"
    if "e \<noteq> Mqtt_ok" "st_failures st \<le> 15" for e st
    using that by (cases e) (auto simp: Let_def)
  have "st_failures (fold status_step evs st) = min 15 (st_failures st + length (filter is_failure evs)) \<and>
      (st_time (fold status_step evs st) \<longleftrightarrow> st_time st \<or> (\<exists>e \<in> set evs. is_invalid_clock e)) \<and>
      (st_recv (fold status_step evs st) \<longleftrightarrow> st_recv st \<or> (\<exists>e \<in> set evs. is_recv_error e)) \<and>
      (st_send (fold status_step evs st) \<longleftrightarrow> st_send st \<or> (\<exists>e \<in> set evs. is_send_error e)) \<and>
      st_tcp (fold status_step evs st) = st_tcp st \<and>
      mv_time_modified (st_mqtt (fold status_step evs st)) = mv_time_modified (st_mqtt st)"
    using assms
  proof (induction evs arbitrary: st)
    case Nil
    then show ?case by simp
  next
    case (Cons e evs)
    from Cons.prems have ev: "Mqtt_ok \<notin> set evs" "e \<noteq> Mqtt_ok" by auto
    note step = step [OF ev(2) Cons.prems(2)]
    then have le: "st_failures (status_step e st) \<le> 15" by simp
    have "min 15 (min 15 (a + b) + c) = min 15 (a + (b + c))" for a b c :: nat by simp
    with Cons.IH [OF ev(1) le] show ?case
      by (cases "is_failure e") (simp_all add: step disj_assoc)
  qed
  then show "st_failures (fold status_step evs st) = min 15 (st_failures st + length (filter is_failure evs))"
    "st_time (fold status_step evs st) \<longleftrightarrow> st_time st \<or> (\<exists>e \<in> set evs. is_invalid_clock e)"
    "st_recv (fold status_step evs st) \<longleftrightarrow> st_recv st \<or> (\<exists>e \<in> set evs. is_recv_error e)"
    "st_send (fold status_step evs st) \<longleftrightarrow> st_send st \<or> (\<exists>e \<in> set evs. is_send_error e)"
    "st_tcp (fold status_step evs st) = st_tcp st"
    "mv_time_modified (st_mqtt (fold status_step evs st)) = mv_time_modified (st_mqtt st)"
    by blast+
qed

text \<open>A buffer-error bit that is set stays set while no such error occurs.\<close>

lemma sticky_recv:
  assumes "\<forall>e \<in> set evs. \<not> is_recv_error e" "\<not> st_recv st" "mv_recv_too_small (st_mqtt st)"
  shows "mv_recv_too_small (st_mqtt (fold status_step evs st))"
  using assms
proof (induction evs arbitrary: st)
  case Nil
  then show ?case by simp
next
  case (Cons e evs)
  from Cons.prems have "\<not> st_recv (status_step e st) \<and> mv_recv_too_small (st_mqtt (status_step e st))"
    by (cases e) (simp_all add: Let_def)
  with Cons show ?case by simp
qed

section \<open>The blob code over a run\<close>

text \<open>The blob results among the notifications, and the class and detail the code shows for one.\<close>

fun blob_results_of :: "elog_notification \<Rightarrow> blob_result list" where
  "blob_results_of (Blob_result (Some r)) = [r]"
| "blob_results_of _ = []"

definition blob_results :: "elog_notification list \<Rightarrow> blob_result list" where
  "blob_results ns = concat (map blob_results_of ns)"

definition blob_outcome :: "blob_result \<Rightarrow> nat \<times> nat" where
  "blob_outcome r =
     (case br_result r of
        EVP_BLOB_RESULT_SUCCESS \<Rightarrow> (1, 0)
      | EVP_BLOB_RESULT_ERROR_HTTP \<Rightarrow> (2, http_detail (br_http_status r))
      | _ \<Rightarrow> (3, errno_detail (br_error r)))"

definition is_blob_success :: "elog_notification \<Rightarrow> bool" where
  "is_blob_success n \<longleftrightarrow> (\<exists>r \<in> set (blob_results_of n). br_result r = EVP_BLOB_RESULT_SUCCESS)"

fun is_ssl_timeout :: "elog_notification \<Rightarrow> bool" where
  "is_ssl_timeout (Network_error e) = starts_with e ''ssl_timeout''"
| "is_ssl_timeout _ = False"

lemma elog_notify_run_append:
  "elog_notify_run env (ns @ ms) s = elog_notify_run env ms (elog_notify_run env ns s)"
  by (induction ns arbitrary: s) simp_all

text \<open>One notification: the operation fields change only with a blob result, the SSL bit only
  with a success or a timeout.\<close>

lemma blob_view_step:
  assumes "notif_inv s"
  shows "(bv_class (st_blob (notif_abs (elog_notify env n s))), bv_detail (st_blob (notif_abs (elog_notify env n s)))) =
      (case blob_results_of n of [] \<Rightarrow> (bv_class (st_blob (notif_abs s)), bv_detail (st_blob (notif_abs s)))
       | r # rs \<Rightarrow> blob_outcome r)"
    and "bv_ssl_timeout (st_blob (notif_abs (elog_notify env n s))) \<longleftrightarrow>
      \<not> is_blob_success n \<and> (is_ssl_timeout n \<or> bv_ssl_timeout (st_blob (notif_abs s)))"
  using elog_notify_refines [OF assms, of env n]
  by (cases n rule: blob_results_of.cases;
      auto simp: status_event_of_def blob_outcome_def is_blob_success_def Let_def
        split: blob_result_kind.splits)+

lemma blob_view_run:
  assumes "notif_inv s"
  shows "(bv_class (st_blob (notif_abs (elog_notify_run env ns s))),
       bv_detail (st_blob (notif_abs (elog_notify_run env ns s)))) =
      (if blob_results ns = [] then (bv_class (st_blob (notif_abs s)), bv_detail (st_blob (notif_abs s)))
       else blob_outcome (last (blob_results ns))) \<and>
    (bv_ssl_timeout (st_blob (notif_abs (elog_notify_run env ns s))) \<longleftrightarrow>
      (\<exists>n \<in> set (takeWhile (\<lambda>n. \<not> is_blob_success n) (rev ns)). is_ssl_timeout n) \<or>
      (bv_ssl_timeout (st_blob (notif_abs s)) \<and> (\<forall>n \<in> set ns. \<not> is_blob_success n)))"
proof (induction ns rule: rev_induct)
  case Nil
  then show ?case by (simp add: blob_results_def)
next
  case (snoc n ns)
  have i: "notif_inv (elog_notify_run env ns s)" using elog_notify_run_refines [OF assms] by blast
  note step = blob_view_step [OF i, of env n]
  have one: "blob_results_of n = [] \<or> (\<exists>r. blob_results_of n = [r])"
    by (cases n rule: blob_results_of.cases) simp_all
  have res: "blob_results (ns @ [n]) = blob_results ns @ blob_results_of n" by (simp add: blob_results_def)
  show ?case
    unfolding elog_notify_run_append elog_notify_run.simps res
    using step snoc.IH one by (elim disjE exE) auto
qed

section \<open>No undefined behaviour, no leaks, locks released\<close>

text \<open>Calls outside the life cycle of the agent: none to its library and none to the watchdog.\<close>

fun local_call :: "ext_call \<Rightarrow> bool" where
  "local_call (EVP _) = False"
| "local_call (ESF (Call_EsfPwrMgrSwWdtStart i)) = False"
| "local_call (ESF (Call_EsfPwrMgrSwWdtKeepalive i)) = False"
| "local_call (ESF (Call_EsfPwrMgrSwWdtStop i)) = False"
| "local_call _ = True"

lemma local_log_calls [simp]:
  "local_call (EVP_AGENT_WARN f l m a)" "local_call (EVP_AGENT_ERR f l m a)" "local_call (EVP_AGENT_INFO f l m a)"
  by (simp_all add: EVP_AGENT_WARN_def EVP_AGENT_ERR_def EVP_AGENT_INFO_def)

definition calls_out :: "'s io_state_scheme \<Rightarrow> 's io_state_scheme \<Rightarrow> bool" where
  "calls_out s s' \<longleftrightarrow> live s' = live s \<and> fresh s' = fresh s \<and> ub s' = ub s \<and>
     (\<exists>cs. trace s' = trace s @ cs \<and> balanced cs \<and> list_all local_call cs)"

lemma calls_out_trans: "calls_out s t \<Longrightarrow> calls_out t u \<Longrightarrow> calls_out s u"
  by (force simp: calls_out_def intro: balanced_append)

lemma calls_out_refl [simp]: "calls_out s s"
  by (auto simp: calls_out_def intro: exI [of _ "[]"])

lemma calls_out_emit: "calls_out s t \<Longrightarrow> \<not> lock_call c \<Longrightarrow> local_call c \<Longrightarrow> calls_out s (emit c t)"
  by (rule calls_out_trans) (auto simp: calls_out_def balanced_other)

lemma calls_out_get: "elog_wf s \<Longrightarrow> calls_out s (s\<lparr>trace := trace s @ elog_get_calls\<rparr>)"
  using balanced_section [of "[]" elog_entry_mutex] by (simp add: calls_out_def elog_get_calls_def)

lemma local_set_calls: "list_all local_call (elog_set_calls c v s)"
  by (simp add: elog_set_calls_def)

lemma calls_out_set: "elog_wf t \<Longrightarrow> calls_out s t \<Longrightarrow> calls_out s (snd (SystemSetELog env c v t))"
  by (rule calls_out_trans) (auto simp: calls_out_def SystemSetELog_eq balanced_set_calls local_set_calls)

lemma calls_out_update [simp]:
  "calls_out s (t\<lparr>g_mqtt_reconnect_cnt := n\<rparr>) = calls_out s t"
  "calls_out s (t\<lparr>g_mqtt_sync_error_recv_buffer_too_small := b\<rparr>) = calls_out s t"
  "calls_out s (t\<lparr>g_mqtt_sync_error_send_buffer_is_full := b\<rparr>) = calls_out s t"
  "calls_out s (t\<lparr>g_mqtt_sync_error_invalid_time := b\<rparr>) = calls_out s t"
  "calls_out s (t\<lparr>g_tcp_timer_error_timeout := b\<rparr>) = calls_out s t"
  by (simp_all add: calls_out_def)

text \<open>The clock is sane when the year of the local time, counted from 0, fits an \<open>int\<close>.\<close>

definition clock_contract :: "'e notif_env_scheme \<Rightarrow> bool" where
  "clock_contract env \<longleftrightarrow> (\<forall>h t. tm_year (env_localtime_r env h t) + 1900 \<le> INT_MAX)"

lemma get_elog_calls: "elog_wf s \<Longrightarrow> SystemGetELog c s =
    (case elog_map s c of Some v \<Rightarrow> v | None \<Rightarrow> ELOG_ERR, s\<lparr>trace := trace s @ elog_get_calls\<rparr>)"
  by (simp add: SystemGetELog_eq elog_get_calls_def)

lemma check_sys_time_calls_out:
  assumes "clock_contract env"
  shows "calls_out s (snd (check_sys_time env s))"
proof -
  have "\<not> INT_MAX < tm_year (env_localtime_r env h t) + 1900" for h t
    using assms by (simp add: clock_contract_def not_less)
  then show ?thesis
    by (simp add: check_sys_time_def case_prod_beta Let_def calls_out_emit lock_call_def
        EVP_AGENT_ERR_def)
qed

lemma mqtt_fail_flags_calls_out:
  assumes "clock_contract env" "elog_wf s"
  shows "calls_out s (mqtt_fail_flags env e s)"
proof -
  have "calls_out s (snd (check_sys_time env (s\<lparr>trace := trace s @ elog_get_calls\<rparr>)))"
    using calls_out_trans [OF calls_out_get [OF assms(2)] check_sys_time_calls_out [OF assms(1)]] .
  then show ?thesis by (simp add: mqtt_fail_flags_def mqtt_sync_fail_reason_eq Let_def)
qed

lemmas calls_out_rules = calls_out_emit calls_out_set calls_out_get calls_out_refl

lemma blob_result_calls_out:
  assumes "elog_wf s"
  shows "calls_out s (snd (elog_handler_blob_result env e s))"
  using assms
  by (auto simp: elog_handler_blob_result_def elog_handler_blob_success_def
      elog_handler_blob_http_error_def elog_handler_blob_other_error_def case_prod_beta Let_def
      get_elog_calls intro!: calls_out_rules split: option.splits blob_result_kind.splits)

lemma network_error_calls_out:
  assumes "elog_wf s" "e \<noteq> None"
  shows "calls_out s (snd (elog_handler_network_error env e s))"
  using assms
  by (auto simp: elog_handler_network_error_def event_starts_with_eq case_prod_beta Let_def
      get_elog_calls intro!: calls_out_rules)

lemma mqtt_success_calls_out:
  assumes "elog_wf s"
  shows "calls_out s (snd (elog_handler_mqtt_sync_success env s))"
proof -
  let ?s1 = "s\<lparr>trace := trace s @ elog_get_calls\<rparr>"
  have "calls_out s ?s1" using assms by (rule calls_out_get)
  moreover have "calls_out ?s1 (?s1\<lparr>trace := trace ?s1 @ elog_get_calls\<rparr>)"
    using assms by (intro calls_out_get) simp
  ultimately have "calls_out s (?s1\<lparr>trace := trace ?s1 @ elog_get_calls\<rparr>)"
    by (rule calls_out_trans)
  with assms show ?thesis
    by (simp add: elog_handler_mqtt_sync_success_def case_prod_beta Let_def get_elog_calls
        calls_out_get calls_out_emit calls_out_set elog.put_wf del: if_split)
qed

lemma mqtt_fail_calls_out:
  assumes "elog_wf s" "clock_contract env"
  shows "calls_out s (snd (elog_handler_mqtt_sync_fail env e s))"
proof (cases "\<exists>m. elog_map s ELOG_EVP_MQTT_STATUS = Some m \<and> m \<noteq> ELOG_ERR")
  case True
  then obtain m where m: "elog_map s ELOG_EVP_MQTT_STATUS = Some m" "m \<noteq> ELOG_ERR" by blast
  show ?thesis
    unfolding mqtt_sync_fail_eq [OF assms(1) m]
    using assms mqtt_fail_flags_calls_out [OF assms(2,1), of e] mqtt_fail_flags_eq(2) [of env e s]
    by (simp add: case_prod_beta Let_def calls_out_emit calls_out_set)
next
  case False
  then show ?thesis
    using assms(1) by (simp add: elog_handler_mqtt_sync_fail_def get_elog_calls calls_out_emit calls_out_get
        split: option.splits)
qed

lemma mqtt_result_calls_out:
  assumes "elog_wf s" "clock_contract env" "e \<noteq> None"
  shows "calls_out s (snd (elog_handler_mqtt_sync_result env e s))"
  using assms mqtt_fail_calls_out [OF assms(1,2), of e] mqtt_success_calls_out [OF assms(1), of env]
  by (cases e) (simp_all add: elog_handler_mqtt_sync_result_def event_starts_with_eq case_prod_beta
      Let_def calls_out_emit)

lemma ub_kept:
  "ub (snd (SystemGetELog c s)) = ub s" "ub (snd (SystemSetELog env c v s)) = ub s"
  "ub u \<Longrightarrow> ub (snd (check_sys_time env' u))"
  by (simp_all add: SystemGetELog_def SystemSetELog_def check_sys_time_def case_prod_beta Let_def
      elog_lock_def elog_unlock_def split: option.split)

lemma mqtt_success_unregistered:
  "elog_wf s \<Longrightarrow> elog_map s ELOG_EVP_MQTT_STATUS = None \<Longrightarrow>
     elog_handler_mqtt_sync_success env s = (- EINVAL, s\<lparr>trace := trace s @ elog_get_calls\<rparr>)"
  by (simp add: elog_handler_mqtt_sync_success_def get_elog_calls)

lemma mqtt_fail_unregistered:
  "elog_wf s \<Longrightarrow> elog_map s ELOG_EVP_MQTT_STATUS = None \<Longrightarrow>
     elog_handler_mqtt_sync_fail env e s = (- EINVAL, emit (EVP_AGENT_ERR ''notifications.c'' 355
       ''Failed to get ELOG_EVP_MQTT_STATUS'' []) (s\<lparr>trace := trace s @ elog_get_calls\<rparr>))"
  by (simp add: elog_handler_mqtt_sync_fail_def get_elog_calls)

section \<open>A start state\<close>

text \<open>The globals at program start with the three components registered, as
  \<open>evp_agent_notifications_register\<close> does, and an environment in which every call succeeds.\<close>

definition notif_env_ok :: notif_env where
  "notif_env_ok = config_env.extend config_env_ok
     \<lparr>env_clock_gettime = \<lambda>_. (0, 1700000000),
      env_localtime_r = \<lambda>_ _. \<lparr>tm_year = 123, tm_mon = 10, tm_mday = 14, tm_hour = 22, tm_min = 13, tm_sec = 20\<rparr>,
      env_sysmgr_error_number = \<lambda>r. case r of kEsfSystemManagerResultOk \<Rightarrow> 0 | EsfSystemManagerError n \<Rightarrow> int n + 1,
      env_EsfLedManagerSetStatus = \<lambda>_ _. 0, kEsfLedManagerSuccess = 0,
      env_led_status_number = \<lambda>_. 0, env_notification_subscribe = \<lambda>_ _. 0\<rparr>"

definition notif_boot :: notif_state where
  "notif_boot = esf_state.extend esf_start
     \<lparr>g_mqtt_reconnect_cnt = 0, g_mqtt_sync_error_recv_buffer_too_small = False,
      g_mqtt_sync_error_send_buffer_is_full = False, g_mqtt_sync_error_invalid_time = False,
      g_tcp_timer_error_timeout = False\<rparr>"

definition notif_start :: notif_state where
  "notif_start =
     SystemRegElog ELOG_EVP_WASM_STATUS 0x0 ''EVP Block Warning 3.''
       (SystemRegElog ELOG_EVP_MQTT_STATUS 0x0 ''EVP Block Warning 2.''
         (SystemRegElog ELOG_EVP_BLOB_NETWORK_STATUS 0x40 ''EVP Block Warning.'' notif_boot))"

lemma notif_boot_facts:
  "elog_wf notif_boot" "elog_map notif_boot = Map.empty" "elog_slots notif_boot = 128" "heap_wf notif_boot"
  "notif_globals notif_boot = (0, False, False, False, False)" "\<not> ub notif_boot" "live notif_boot = {}"
  "fresh notif_boot = 0" "trace notif_boot = []" "cache_empty (g_proxy_cache notif_boot)"
  using log_start_facts esf_start_facts
  by (simp_all add: notif_boot_def esf_state.defs esf_start_def log_state.defs notif_globals_def
      log_start_def elog_wf_def elog_map_def elog_slots_def heap_wf_def)

lemma notif_globals_reg [simp]: "notif_globals (SystemRegElog c v m s) = notif_globals s"
  by (simp add: SystemRegElog_eq notif_globals_def)

lemma notif_start_facts:
  "notif_inv notif_start" "clock_contract notif_env_ok"
  "notif_abs notif_start = \<lparr>st_blob = blob_fields 0x40, st_mqtt = mqtt_fields 0, st_failures = 0,
     st_recv = False, st_send = False, st_time = False, st_tcp = False\<rparr>"
proof -
  have m: "elog_map notif_start = [ELOG_EVP_BLOB_NETWORK_STATUS \<mapsto> 0x40, ELOG_EVP_MQTT_STATUS \<mapsto> 0,
      ELOG_EVP_WASM_STATUS \<mapsto> 0]" "elog_wf notif_start"
    by (simp_all add: notif_start_def elog.store_laws notif_boot_facts)
  have g: "notif_globals notif_start = (0, False, False, False, False)"
    by (simp add: notif_start_def notif_boot_facts)
  have "blob_wf 0x40" by (simp add: blob_wf_def blob_fields_def)
  with m g show "notif_inv notif_start" by (simp add: notif_inv_def notif_globals_def)
  from m g show "notif_abs notif_start = \<lparr>st_blob = blob_fields 0x40, st_mqtt = mqtt_fields 0, st_failures = 0,
     st_recv = False, st_send = False, st_time = False, st_tcp = False\<rparr>"
    by (simp add: notif_abs_def notif_globals_def)
  show "clock_contract notif_env_ok"
    by (simp add: clock_contract_def notif_env_ok_def config_env.defs INT_MAX_def)
qed

lemma clock_valid_ok: "\<not> clock_invalid notif_env_ok h"
  by (simp add: clock_invalid_def notif_env_ok_def config_env.defs)

section \<open>Properties\<close>

text \<open>On every run the handlers act on the two codes, the reconnect counter and the pending flags
  as \<open>status_step\<close> does on fields, and they keep the invariant.\<close>

lemma notifications_act_on_fields:
  assumes "notif_inv s"
  shows "notif_abs (elog_notify_run env ns s) = fold status_step (status_events env ns s) (notif_abs s) \<and>
    notif_inv (elog_notify_run env ns s)"
  using elog_notify_run_refines [OF assms] by blast

text \<open>C2. The blob code always shows the last blob operation. After any run of notifications its
  two class bits and four detail bits are those of the last blob result that arrived (1 and 0
  for a success, 2 and the detail of the HTTP status, 3 and the detail of the error), or what
  they were if none arrived, whatever MQTT and network notifications came in between; and the
  bit of the SSL timeout is set exactly if such a timeout was reported after the last
  successful blob operation, or was set before and no operation succeeded since.\<close>

theorem blob_code_shows_last_operation:
  assumes "notif_inv s" "elog_map s ELOG_EVP_BLOB_NETWORK_STATUS = Some b0"
  shows "\<exists>b. elog_map (elog_notify_run env ns s) ELOG_EVP_BLOB_NETWORK_STATUS = Some b \<and>
    (unat b div 64, unat b div 4 mod 16) =
      (if blob_results ns = [] then (unat b0 div 64, unat b0 div 4 mod 16)
       else blob_outcome (last (blob_results ns))) \<and>
    (bit b 0 \<longleftrightarrow>
      (\<exists>n \<in> set (takeWhile (\<lambda>n. \<not> is_blob_success n) (rev ns)). is_ssl_timeout n) \<or>
      (bit b0 0 \<and> (\<forall>n \<in> set ns. \<not> is_blob_success n)))"
proof -
  have i: "notif_inv (elog_notify_run env ns s)" using elog_notify_run_refines [OF assms(1)] by blast
  then obtain b where b: "elog_map (elog_notify_run env ns s) ELOG_EVP_BLOB_NETWORK_STATUS = Some b"
    by (auto simp: notif_inv_def)
  have v: "st_blob (notif_abs s) = blob_fields b0" "st_blob (notif_abs (elog_notify_run env ns s)) = blob_fields b"
    using assms(2) b by (simp_all add: notif_abs_def)
  from blob_view_run [OF assms(1), of env ns] show ?thesis
    by (intro exI [of _ b]) (simp add: b v blob_fields_def unat_fields)
qed

theorem blob_code_shows_last_operation_witness:
  "notif_inv notif_start \<and>
   (\<exists>b. elog_map (elog_notify_run notif_env_ok
       [Blob_result (Some \<lparr>br_result = EVP_BLOB_RESULT_SUCCESS, br_http_status = 0, br_error = 0\<rparr>),
        Network_error (Some ''ssl_timeout''),
        Blob_result (Some \<lparr>br_result = EVP_BLOB_RESULT_ERROR_HTTP, br_http_status = 404, br_error = 0\<rparr>),
        Mqtt_sync (Some ''MQTT_OK'')] notif_start) ELOG_EVP_BLOB_NETWORK_STATUS = Some b \<and>
     (unat b div 64, unat b div 4 mod 16) = (2, 5) \<and> bit b 0)"
proof -
  obtain b0 where "elog_map notif_start ELOG_EVP_BLOB_NETWORK_STATUS = Some b0"
    using notif_start_facts(1) by (auto simp: notif_inv_def)
  from blob_code_shows_last_operation [OF notif_start_facts(1) this, of notif_env_ok
      "[Blob_result (Some \<lparr>br_result = EVP_BLOB_RESULT_SUCCESS, br_http_status = 0, br_error = 0\<rparr>),
        Network_error (Some ''ssl_timeout''),
        Blob_result (Some \<lparr>br_result = EVP_BLOB_RESULT_ERROR_HTTP, br_http_status = 404, br_error = 0\<rparr>),
        Mqtt_sync (Some ''MQTT_OK'')]"] notif_start_facts(1)
  show ?thesis
    by (simp add: blob_results_def blob_outcome_def http_detail_def is_blob_success_def starts_with_def
        del: elog_notify_run.simps)
qed

text \<open>C8. When the connection recovers, the MQTT code reports what happened since the last
  recovery: the number of failures, 15 standing for 15 or more, and whether the clock was
  invalid at one of them; the error bits of the two buffers are set if such an error occurred;
  and the counter and the flags start again from nothing.\<close>

theorem recovery_reports_failures:
  assumes "notif_inv s"
    and "notif_globals s = (0, False, False, False, False)"
    and "Mqtt_ok \<notin> set (status_events env ns s)"
    and "starts_with e ''MQTT_OK''"
  shows "\<exists>m. elog_map (elog_notify_run env (ns @ [Mqtt_sync e]) s) ELOG_EVP_MQTT_STATUS = Some m \<and>
    mv_reconnects (mqtt_fields m) = min 15 (length (filter is_failure (status_events env ns s))) \<and>
    mv_time_invalid (mqtt_fields m) = (\<exists>ev \<in> set (status_events env ns s). is_invalid_clock ev) \<and>
    ((\<exists>ev \<in> set (status_events env ns s). is_recv_error ev) \<longrightarrow> mv_recv_too_small (mqtt_fields m)) \<and>
    ((\<exists>ev \<in> set (status_events env ns s). is_send_error ev) \<longrightarrow> mv_send_full (mqtt_fields m)) \<and>
    notif_globals (elog_notify_run env (ns @ [Mqtt_sync e]) s) = (0, False, False, False, False)"
proof -
  have app: "elog_notify_run env (ns @ [n]) s = elog_notify env n (elog_notify_run env ns s)" for n
    by (simp add: elog_notify_run_append)
  let ?t = "elog_notify_run env ns s"
  let ?u = "elog_notify_run env (ns @ [Mqtt_sync e]) s"
  have t: "notif_inv ?t" "notif_abs ?t = fold status_step (status_events env ns s) (notif_abs s)"
    using elog_notify_run_refines [OF assms(1)] by blast+
  have "status_event_of env (Mqtt_sync e) ?t = Mqtt_ok" using assms(4) by (simp add: status_event_of_def)
  then have u: "notif_inv ?u" "notif_abs ?u = status_step Mqtt_ok (notif_abs ?t)"
    using elog_notify_refines [OF t(1), of env "Mqtt_sync e"] by (simp_all add: app)
  have s: "st_failures (notif_abs s) = 0" "\<not> st_time (notif_abs s)" "\<not> st_recv (notif_abs s)"
    "\<not> st_send (notif_abs s)"
    using assms(2) by (simp_all add: notif_abs_def notif_globals_def)
  then have "st_failures (notif_abs s) \<le> 15" by simp
  note p = pending_collect [OF assms(3) this]
  obtain m where m: "elog_map ?u ELOG_EVP_MQTT_STATUS = Some m"
    using u(1) by (auto simp: notif_inv_def)
  then have "mqtt_fields m = st_mqtt (notif_abs ?u)" by (simp add: notif_abs_def)
  moreover have "notif_globals ?u = (0, False, False, False, False)"
    using u(2) by (simp add: notif_abs_def notif_globals_def unat_eq_zero)
  ultimately show ?thesis using m u(2) t(2) p s by auto
qed

theorem recovery_reports_failures_witness:
  "\<exists>m. elog_map (elog_notify_run notif_env_ok
       (replicate 20 (Mqtt_sync (Some ''MQTT_ERROR_RECONNECTING'')) @ [Mqtt_sync (Some ''MQTT_OK'')])
       notif_start) ELOG_EVP_MQTT_STATUS = Some m \<and> mv_reconnects (mqtt_fields m) = 15"
proof -
  let ?n = "Mqtt_sync (Some ''MQTT_ERROR_RECONNECTING'')"
  have ev: "status_events notif_env_ok (replicate k ?n) s = replicate k (Mqtt_fail False False False)" for k s
    by (induction k arbitrary: s) (simp_all add: status_event_of_def starts_with_def clock_valid_ok)
  have g: "notif_globals notif_start = (0, False, False, False, False)"
    by (simp add: notif_start_def notif_boot_facts)
  have fl: "length (filter is_failure (replicate k (Mqtt_fail False False False))) = k" for k
    by (induction k) simp_all
  show ?thesis
    using recovery_reports_failures [OF notif_start_facts(1) g, of notif_env_ok "replicate 20 ?n" "Some ''MQTT_OK''"]
    by (auto simp: ev fl starts_with_def)
qed

text \<open>C19. No run of notifications stores the code \<open>0xFF\<close>, with which \<open>SystemGetELog\<close> answers for
  an unknown component: for both components the handlers read a real code at any time, and
  the reconnect counter never exceeds its four bits.\<close>

theorem error_code_never_stored:
  assumes "notif_inv s"
  shows "fst (SystemGetELog ELOG_EVP_BLOB_NETWORK_STATUS (elog_notify_run env ns s)) \<noteq> ELOG_ERR \<and>
    fst (SystemGetELog ELOG_EVP_MQTT_STATUS (elog_notify_run env ns s)) \<noteq> ELOG_ERR \<and>
    unat (g_mqtt_reconnect_cnt (elog_notify_run env ns s)) \<le> 15"
proof -
  have "notif_inv (elog_notify_run env ns s)" using elog_notify_run_refines [OF assms] by blast
  then show ?thesis
    by (auto simp: notif_inv_def elog.get_value dest: blob_wf_not_err mqtt_not_err)
qed

theorem error_code_never_stored_witness:
  "notif_inv notif_start \<and>
   fst (SystemGetELog ELOG_EVP_MQTT_STATUS (elog_notify_run notif_env_ok [Mqtt_sync None] notif_start)) \<noteq> ELOG_ERR"
  using notif_start_facts(1) error_code_never_stored [OF notif_start_facts(1)] by blast

text \<open>C37. A buffer-error bit of the MQTT code is sticky: once reported it survives any number of
  recoveries and failures as long as no further receive-buffer error occurs, because the bit is
  cleared only on a failure that sets the flag anew.\<close>

theorem recv_error_bit_sticky:
  assumes "notif_inv s" "elog_map s ELOG_EVP_MQTT_STATUS = Some m" "mv_recv_too_small (mqtt_fields m)"
    and "\<not> g_mqtt_sync_error_recv_buffer_too_small s"
    and "\<forall>ev \<in> set (status_events env ns s). \<not> is_recv_error ev"
  shows "\<exists>m'. elog_map (elog_notify_run env ns s) ELOG_EVP_MQTT_STATUS = Some m' \<and>
    mv_recv_too_small (mqtt_fields m')"
proof -
  have r: "notif_inv (elog_notify_run env ns s)"
    "notif_abs (elog_notify_run env ns s) = fold status_step (status_events env ns s) (notif_abs s)"
    using elog_notify_run_refines [OF assms(1)] by blast+
  have "mv_recv_too_small (st_mqtt (notif_abs (elog_notify_run env ns s)))"
    unfolding r(2) using assms(2-5) by (intro sticky_recv) (simp_all add: notif_abs_def)
  with r(1) show ?thesis by (auto simp: notif_inv_def notif_abs_def)
qed

theorem recv_error_bit_sticky_witness:
  "let s = elog_notify_run notif_env_ok
       [Mqtt_sync (Some ''MQTT_ERROR_RECV_BUFFER_TOO_SMALL''), Mqtt_sync (Some ''MQTT_OK'')] notif_start;
     ns = [Mqtt_sync (Some ''MQTT_ERROR_RECONNECTING''), Mqtt_sync (Some ''MQTT_OK'')]
   in \<exists>m'. elog_map (elog_notify_run notif_env_ok ns s) ELOG_EVP_MQTT_STATUS = Some m' \<and>
     mv_recv_too_small (mqtt_fields m')"
proof -
  let ?es = "[Mqtt_sync (Some ''MQTT_ERROR_RECV_BUFFER_TOO_SMALL''), Mqtt_sync (Some ''MQTT_OK'')]"
  let ?s = "elog_notify_run notif_env_ok ?es notif_start"
  let ?ns = "[Mqtt_sync (Some ''MQTT_ERROR_RECONNECTING''), Mqtt_sync (Some ''MQTT_OK'')]"
  have r: "notif_inv ?s" "notif_abs ?s = fold status_step (status_events notif_env_ok ?es notif_start) (notif_abs notif_start)"
    using elog_notify_run_refines [OF notif_start_facts(1)] by blast+
  obtain m where m: "elog_map ?s ELOG_EVP_MQTT_STATUS = Some m"
    using r(1) by (auto simp: notif_inv_def)
  have "status_events notif_env_ok ?es notif_start = [Mqtt_fail True False False, Mqtt_ok]"
    by (simp add: status_event_of_def starts_with_def clock_valid_ok)
  then have a: "mv_recv_too_small (st_mqtt (notif_abs ?s))" "\<not> st_recv (notif_abs ?s)"
    unfolding r(2) by (simp_all add: notif_start_facts(3) Let_def)
  then have b: "mv_recv_too_small (mqtt_fields m)" "\<not> g_mqtt_sync_error_recv_buffer_too_small ?s"
    using m by (simp_all add: notif_abs_def)
  have "\<forall>ev \<in> set (status_events notif_env_ok ?ns ?s). \<not> is_recv_error ev"
    by (simp add: status_event_of_def starts_with_def)
  from recv_error_bit_sticky [OF r(1) m b this] show ?thesis by (simp only: Let_def)
qed

text \<open>C20. With a non-NULL event and a sane clock no handler of the event log does anything
  undefined, touches the heap or keeps the table's mutex.\<close>

theorem notifications_safe:
  assumes "elog_wf s" "clock_contract env" "n \<noteq> Mqtt_sync None" "n \<noteq> Network_error None"
  shows "ub (elog_notify env n s) = ub s \<and> live (elog_notify env n s) = live s \<and>
    (\<exists>cs. trace (elog_notify env n s) = trace s @ cs \<and> balanced cs)"
proof -
  have "calls_out s (elog_notify env n s)"
    using assms blob_result_calls_out [OF assms(1), of env] network_error_calls_out [OF assms(1)]
      mqtt_result_calls_out [OF assms(1,2)]
    by (cases n) (simp_all add: elog_notify_def)
  then show ?thesis by (auto simp: calls_out_def)
qed

theorem notifications_safe_witness:
  "\<not> ub (elog_notify notif_env_ok (Mqtt_sync (Some ''MQTT_OK'')) notif_boot)"
  using notifications_safe [OF notif_boot_facts(1) notif_start_facts(2), of "Mqtt_sync (Some ''MQTT_OK'')"]
    notif_boot_facts(6) by simp

text \<open>A NULL event makes the MQTT handler compare through a null pointer: the comparison with
  \<open>MQTT_OK\<close> comes before the check \<open>if (event)\<close> of the failure handler, which can therefore
  never be of use.\<close>

lemma mqtt_null_event_undefined: "ub (snd (elog_handler_mqtt_sync_result env None s))"
  by (simp add: elog_handler_mqtt_sync_result_def event_starts_with_def elog_handler_mqtt_sync_fail_def
      mqtt_sync_fail_reason_def case_prod_beta Let_def ub_kept)

text \<open>While the components are not registered the handlers lose what they are told: no code
  and no counter or flag changes, nothing is written to the event log, and the handlers that
  read the code first report \<open>EINVAL\<close>.\<close>

lemma unregistered_components_ignored:
  assumes "elog_wf s" "elog_map s ELOG_EVP_BLOB_NETWORK_STATUS = None" "elog_map s ELOG_EVP_MQTT_STATUS = None"
  shows "elog_map (elog_notify env n s) = elog_map s \<and> notif_globals (elog_notify env n s) = notif_globals s \<and>
    fst (elog_handler_network_error env e s) = - EINVAL \<and> fst (elog_handler_blob_http_error env st s) = EINVAL \<and>
    fst (elog_handler_mqtt_sync_success env s) = - EINVAL \<and> fst (elog_handler_mqtt_sync_fail env e s) = - EINVAL"
proof -
  let ?s1 = "s\<lparr>trace := trace s @ elog_get_calls\<rparr>"
  note get = get_elog_calls [OF assms(1)]
  have g: "notif_globals ?s1 = notif_globals s" by (simp add: notif_globals_def)
  have blob: "elog_map (snd (elog_handler_blob_result env r s)) = elog_map s \<and>
      notif_globals (snd (elog_handler_blob_result env r s)) = notif_globals s" for r
    using assms by (simp add: elog_handler_blob_result_def elog_handler_blob_success_def get
        elog_handler_blob_http_error_def elog_handler_blob_other_error_def case_prod_beta Let_def
        elog.store_laws notif_globals_def split: option.splits blob_result_kind.splits)
  have net: "elog_handler_network_error env r s = (- EINVAL, ?s1)" for r
    using assms by (simp add: elog_handler_network_error_def get)
  note ok = mqtt_success_unregistered and fail = mqtt_fail_unregistered
  have mqtt: "elog_map (snd (elog_handler_mqtt_sync_result env r s)) = elog_map s \<and>
      notif_globals (snd (elog_handler_mqtt_sync_result env r s)) = notif_globals s" for r
    using assms by (cases r) (simp_all add: elog_handler_mqtt_sync_result_def event_starts_with_eq
        case_prod_beta Let_def ok fail notif_globals_def)
  have "fst (elog_handler_blob_http_error env st s) = EINVAL"
    using assms by (simp add: elog_handler_blob_http_error_def get)
  moreover have "elog_map (elog_notify env n s) = elog_map s \<and> notif_globals (elog_notify env n s) = notif_globals s"
    using blob net mqtt g by (cases n) (simp_all add: elog_notify_def)
  ultimately show ?thesis using net assms by (simp add: ok fail)
qed

lemma unregistered_components_ignored_witness:
  "elog_map notif_boot ELOG_EVP_MQTT_STATUS = None \<and>
   notif_globals (elog_notify notif_env_ok (Mqtt_sync (Some ''MQTT_ERROR_RECONNECTING'')) notif_boot) =
     (0, False, False, False, False)"
  using unregistered_components_ignored [OF notif_boot_facts(1), of notif_env_ok
      "Mqtt_sync (Some ''MQTT_ERROR_RECONNECTING'')"] notif_boot_facts by simp

text \<open>The byte layout of the ELog code specification is exact: a code is determined by its
  fields, for the blob and network status and for the MQTT status.\<close>

lemma elog_code_fields_roundtrip: "blob_code (blob_fields c) = c \<and> mqtt_code (mqtt_fields c) = c"
  by (simp add: blob_code_fields mqtt_code_fields)

end
