(* ===== verification/Agent_Status.thy ===== *)
theory Agent_Status
  imports Notifications
begin

text \<open>
  The second half of \<open>notifications.c\<close>: the handler of \<open>agent/status\<close>, which drives the service
  LED from the connection state, the TLS setting and the enrollment mode, and the registration
  of the event-log components and of all four handlers.

  The client of the configuration source: the LED handler reads the MQTT host through
  \<open>evp_agent_esf_read_config\<close> and releases what it got, so its memory discipline rests on the
  interpretation \<open>esf\<close>.
\<close>

section \<open>Enrollment mode\<close>

definition PROVISIONING_SERVICE_URL :: string where
  "PROVISIONING_SERVICE_URL = ''provision.aitrios.sony-semicon.com''"

datatype EvpAgentLedIndex =
    EvpAgentLedIndexConnectedWithTLS
  | EvpAgentLedIndexConnectedWithoutTLS
  | EvpAgentLedIndexDisconnectedConnectingWithTLS
  | EvpAgentLedIndexDisconnectedConnectingWithoutTLS

definition is_tls_connection ::
  "'e esf_env_scheme \<Rightarrow> 's log_state_scheme \<Rightarrow> bool \<times> 's log_state_scheme" where
  "is_tls_connection env s = evp_agent_esf_is_tls_enabled env s"

definition check_provisioning_service_mqtt_host ::
  "'e esf_env_scheme \<Rightarrow> 's esf_state_scheme \<Rightarrow> bool \<times> 's esf_state_scheme" where
  "check_provisioning_service_mqtt_host env s =
     (let (cfg, s1) = evp_agent_esf_read_config env EVP_CONFIG_MQTT_HOST s
      in case cfg of
           None \<Rightarrow> (False, s1)
         | Some cfg \<Rightarrow>
             (strcmp (cstr (cfg_value cfg)) PROVISIONING_SERVICE_URL = 0,
              c_free (Some (cfg_block cfg)) (c_free (Some (cfg_value_block cfg)) s1)))"

text \<open>
  \<open>check_project_id_and_register_token_valid\<close> up to the label \<open>end\<close>: the result and the two
  blocks to release. A block from \<open>malloc\<close> holds unknown bytes until it is written.
\<close>

definition uninit_block :: "'e libc_env_scheme \<Rightarrow> nat \<Rightarrow> 's io_state_scheme \<Rightarrow> char list" where
  "uninit_block env n s = replicate n (env_uninit env (trace s))"

definition check_project_id_and_register_token_body ::
  "'e notif_env_scheme \<Rightarrow> 's log_state_scheme \<Rightarrow> bool \<times> nat option \<times> nat option \<times> 's log_state_scheme" where
  "check_project_id_and_register_token_body env s =
     (let n = env_size env ESF_SYSTEM_MANAGER_PROJECT_ID_MAX_SIZE;
          (project_id, s1) = c_malloc env (Alloc_project_id n) s
      in if project_id = None then
           (False, None, None, SystemDlog env LOG_ERR ''agent_status'' ''notifications.c'' 506
              ''failed to allocate memory for project_id'' [] s1)
         else
           let (sys_mgr_ret, project_id_buf, s2) =
                 EsfSystemManagerGet env ProjectId (uninit_block env n s1) n s1
           in if sys_mgr_ret \<noteq> kEsfSystemManagerResultOk then
                (False, project_id, None, SystemDlog env LOG_ERR ''agent_status'' ''notifications.c'' 512
                   ''EsfSystemManagerGetProjectId failed (%d)''
                   [FInt (env_sysmgr_error_number env sys_mgr_ret)] s2)
              else
                let k = env_size env ESF_SYSTEM_MANAGER_REGISTER_TOKEN_MAX_SIZE;
                    (register_token, s3) = c_malloc env (Alloc_register_token k) s2
                in if register_token = None then
                     (False, project_id, None, SystemDlog env LOG_ERR ''agent_status'' ''notifications.c'' 520
                        ''failed to allocate memory for register_token'' [] s3)
                   else
                     let (sys_mgr_ret, register_token_buf, s4) =
                           EsfSystemManagerGet env RegisterToken (uninit_block env k s3) k s3
                     in if sys_mgr_ret \<noteq> kEsfSystemManagerResultOk then
                          (False, project_id, register_token,
                           SystemDlog env LOG_ERR ''agent_status'' ''notifications.c'' 526
                             ''EsfSystemManagerGetRegisterToken failed (%d)''
                             [FInt (env_sysmgr_error_number env sys_mgr_ret)] s4)
                        else (cstr project_id_buf \<noteq> [] \<and> cstr register_token_buf \<noteq> [],
                              project_id, register_token, s4))"

definition check_project_id_and_register_token_valid ::
  "'e notif_env_scheme \<Rightarrow> 's log_state_scheme \<Rightarrow> bool \<times> 's log_state_scheme" where
  "check_project_id_and_register_token_valid env s =
     (let (is_valid, project_id, register_token, s1) = check_project_id_and_register_token_body env s
      in (is_valid, c_free register_token (c_free project_id s1)))"

definition is_enrollment_mode ::
  "'e notif_env_scheme \<Rightarrow> 's esf_state_scheme \<Rightarrow> bool \<times> 's esf_state_scheme" where
  "is_enrollment_mode env s =
     (let (prov, s1) = check_provisioning_service_mqtt_host env s
      in if prov then (True, s1)
         else
           let (valid, s2) = check_project_id_and_register_token_valid env s1
           in if valid then (True, s2) else (False, s2))"

section \<open>The LED handler\<close>

definition EvpAgentLedIndices :: "EvpAgentLedIndex list" where
  "EvpAgentLedIndices = [EvpAgentLedIndexConnectedWithTLS, EvpAgentLedIndexConnectedWithoutTLS,
     EvpAgentLedIndexDisconnectedConnectingWithTLS, EvpAgentLedIndexDisconnectedConnectingWithoutTLS]"

fun led_status_of :: "EvpAgentLedIndex \<Rightarrow> led_status" where
  "led_status_of EvpAgentLedIndexConnectedWithTLS = kEsfLedManagerLedStatusConnectedWithTLS"
| "led_status_of EvpAgentLedIndexConnectedWithoutTLS = kEsfLedManagerLedStatusConnectedWithoutTLS"
| "led_status_of EvpAgentLedIndexDisconnectedConnectingWithTLS =
     kEsfLedManagerLedStatusDisconnectedConnectingWithTLS"
| "led_status_of EvpAgentLedIndexDisconnectedConnectingWithoutTLS =
     kEsfLedManagerLedStatusDisconnectedConnectingWithoutTLS"

text \<open>The array \<open>led_status\<close> after its initialisation loop, indexed by the enumeration.\<close>

definition led_status_init :: "EvpAgentLedIndex \<Rightarrow> led_status_info" where
  "led_status_init i =
     \<lparr>li_led = kEsfLedManagerTargetLedService, li_status = led_status_of i, li_enabled = False\<rparr>"

fun set_led_loop ::
  "'e notif_env_scheme \<Rightarrow> led_status_info list \<Rightarrow> 's log_state_scheme \<Rightarrow> int \<times> 's log_state_scheme" where
  "set_led_loop env [] s = (0, s)"
| "set_led_loop env (info # infos) s =
     (let led_mgr_ret = env_EsfLedManagerSetStatus env (trace s) info;
          s1 = emit (ESF (Call_EsfLedManagerSetStatus info)) s
      in if led_mgr_ret \<noteq> kEsfLedManagerSuccess env then
           (-1, SystemDlog env LOG_ERR ''agent_status'' ''notifications.c'' 634
              ''%s: EsfLedManagerSetStatus failed, result=%u status=%u''
              [FStr ''agent_status_handler'', FInt led_mgr_ret,
               FInt (env_led_status_number env (li_status info))] s1)
         else set_led_loop env infos s1)"

definition agent_status_handler ::
  "'e notif_env_scheme \<Rightarrow> string option \<Rightarrow> 's esf_state_scheme \<Rightarrow> int \<times> 's esf_state_scheme" where
  "agent_status_handler env args s =
     (case args of
        None \<Rightarrow> (-1, SystemDlog env LOG_ERR ''agent_status'' ''notifications.c'' 574
                      ''%s: args is NULL'' [FStr ''agent_status_handler''] s)
      | Some agent_status \<Rightarrow>
          (let led_status = led_status_init in
           if strcmp agent_status ''connected'' = 0 then
             let (enrollment, s1) = is_enrollment_mode env s
             in if enrollment then (0, s1)
                else
                  let (tls, s2) = is_tls_connection env s1;
                      i = (if tls then EvpAgentLedIndexConnectedWithTLS
                           else EvpAgentLedIndexConnectedWithoutTLS);
                      led_status = led_status(i := (led_status i)\<lparr>li_enabled := True\<rparr>)
                  in set_led_loop env (map led_status EvpAgentLedIndices) s2
           else if strcmp agent_status ''disconnected'' = 0 then
             let (tls, s1) = is_tls_connection env s;
                 i = (if tls then EvpAgentLedIndexDisconnectedConnectingWithTLS
                      else EvpAgentLedIndexDisconnectedConnectingWithoutTLS);
                 led_status = led_status(i := (led_status i)\<lparr>li_enabled := True\<rparr>)
             in set_led_loop env (map led_status EvpAgentLedIndices) s1
           else
             (-1, SystemDlog env LOG_ERR ''agent_status'' ''notifications.c'' 626
                ''%s: unknown agent/status: %s''
                [FStr ''agent_status_handler'', FStr agent_status] s)))"

section \<open>Registration\<close>

text \<open>The four subscriptions in their order, each with the error message and its line.\<close>

definition subscriptions :: "(string \<times> notification_handler \<times> int \<times> string) list" where
  "subscriptions =
     [(''blob/result'', Handler_blob_result, 655, ''Failed to subscribe to blob/result''),
      (''mqtt/sync/err'', Handler_mqtt_sync_result, 662, ''Failed to subscribe to mqtt/sync/err''),
      (''network/error'', Handler_network_error, 668, ''Failed to subscribe to network/error''),
      (''agent/status'', Handler_agent_status, 674, ''Failed to subscribe to agent/status'')]"

fun subscribe_all ::
  "'e notif_env_scheme \<Rightarrow> nat \<Rightarrow> (string \<times> notification_handler \<times> int \<times> string) list \<Rightarrow>
   's log_state_scheme \<Rightarrow> int \<times> 's log_state_scheme" where
  "subscribe_all env ctxt [] s = (0, s)"
| "subscribe_all env ctxt ((topic, handler, line, err) # subs) s =
     (let ret = env_notification_subscribe env (trace s) topic;
          s1 = emit (EVP (Call_evp_agent_notification_subscribe ctxt topic handler)) s
      in if ret \<noteq> 0 then (ret, emit (EVP_AGENT_ERR ''notifications.c'' line err []) s1)
         else subscribe_all env ctxt subs s1)"

definition evp_agent_notifications_register ::
  "'e notif_env_scheme \<Rightarrow> nat \<Rightarrow> 's log_state_scheme \<Rightarrow> int \<times> 's log_state_scheme" where
  "evp_agent_notifications_register env ctxt s =
     (let s1 = SystemRegElog ELOG_EVP_BLOB_NETWORK_STATUS 0x40 ''EVP Block Warning.'' s;
          s2 = SystemRegElog ELOG_EVP_MQTT_STATUS 0x0 ''EVP Block Warning 2.'' s1;
          s3 = SystemRegElog ELOG_EVP_WASM_STATUS 0x0 ''EVP Block Warning 3.'' s2
      in subscribe_all env ctxt subscriptions s3)"

section \<open>Memory discipline\<close>

lemma dlog_formats:
  "c_format ''failed to allocate memory for project_id'' [] \<noteq> None"
  "c_format ''failed to allocate memory for register_token'' [] \<noteq> None"
  "c_format ''EsfSystemManagerGetProjectId failed (%d)'' [FInt i] \<noteq> None"
  "c_format ''EsfSystemManagerGetRegisterToken failed (%d)'' [FInt i] \<noteq> None"
  "c_format ''%s: args is NULL'' [FStr x] \<noteq> None"
  "c_format ''%s: unknown agent/status: %s'' [FStr x, FStr y] \<noteq> None"
  "c_format ''%s: EsfLedManagerSetStatus failed, result=%u status=%u'' [FStr x, FInt i, FInt j] \<noteq> None"
  by (simp_all add: directives_def convert_def)

lemma allocs_dlog:
  assumes "allocs neutral B s t" "heap_wf s" "c_format fmt args \<noteq> None"
  shows "allocs neutral B s (SystemDlog env priority tag file line fmt args t)"
  using assms by (intro allocs_quiet [OF assms(1) SystemDlog_quiet] allocs_heap_wf [OF assms(1)])

lemma check_provisioning_quiet:
  assumes "esf_contract env" "heap_wf s"
  shows "quiet neutral s (snd (check_provisioning_service_mqtt_host env s))"
proof -
  obtain r s1 where r: "evp_agent_esf_read_config env EVP_CONFIG_MQTT_HOST s = (r, s1)"
    by (cases "evp_agent_esf_read_config env EVP_CONFIG_MQTT_HOST s")
  have inv: "esf_contract env \<and> heap_wf s" using assms by blast
  show ?thesis
  proof (cases r)
    case None
    with r esf.read_None [of env, OF inv] show ?thesis by (simp add: check_provisioning_service_mqtt_host_def)
  next
    case (Some cfg)
    with r esf.release_quiet [of env, OF inv] show ?thesis by (simp add: check_provisioning_service_mqtt_host_def)
  qed
qed

lemma sysmgr_get_quiet:
  assumes "esf_contract env" "length buf = n" "EsfSystemManagerGet env item buf n s = (r, buf', s')"
  shows "quiet neutral s s'" "length buf' = n"
  using assms by (auto simp: EsfSystemManagerGet_def esf_contract_def store_bytes_def Let_def
      intro!: allocs_emit split: prod.splits if_splits) (metis snd_conv)+

text \<open>What the two blocks hold at the label \<open>end\<close>, on every path.\<close>

lemma check_project_body_allocs:
  assumes "esf_contract env" "heap_wf s"
    and "check_project_id_and_register_token_body env s = (v, p, q, s')"
  shows "allocs neutral (set_option p \<union> set_option q) s s'" "set_option p \<inter> set_option q = {}"
proof -
  let ?n = "env_size env ESF_SYSTEM_MANAGER_PROJECT_ID_MAX_SIZE"
  let ?k = "env_size env ESF_SYSTEM_MANAGER_REGISTER_TOKEN_MAX_SIZE"
  obtain p1 s1 where m1: "c_malloc env (Alloc_project_id ?n) s = (p1, s1)" by fastforce
  obtain r2 b2 s2 where g1: "EsfSystemManagerGet env ProjectId (uninit_block env ?n s1) ?n s1 = (r2, b2, s2)"
    using prod_cases3 by blast
  obtain q3 s3 where m2: "c_malloc env (Alloc_register_token ?k) s2 = (q3, s3)" by fastforce
  obtain r4 b4 s4 where g2: "EsfSystemManagerGet env RegisterToken (uninit_block env ?k s3) ?k s3 = (r4, b4, s4)"
    using prod_cases3 by blast
  have a1: "allocs neutral (set_option p1) s s1" using m1 by (rule allocs_malloc) simp
  have a2: "allocs neutral (set_option p1) s s2"
    using a1 sysmgr_get_quiet(1) [OF assms(1) _ g1] by (auto simp: uninit_block_def intro: allocs_quiet)
  have m3: "allocs neutral (set_option q3) s2 s3" using m2 by (rule allocs_malloc) simp
  have a3: "allocs neutral (set_option p1 \<union> set_option q3) s s3" using a2 m3 by (rule allocs_trans)
  have a4: "allocs neutral (set_option p1 \<union> set_option q3) s s4"
    using a3 sysmgr_get_quiet(1) [OF assms(1) _ g2] by (auto simp: uninit_block_def intro: allocs_quiet)
  have "set_option p1 \<inter> set_option q3 = {}"
    using allocs_facts(5) [OF a2] allocs_facts(5) [OF m3] by fastforce
  then show "set_option p \<inter> set_option q = {}"
    using assms(3) by (auto simp: check_project_id_and_register_token_body_def m1 g1 m2 g2 Let_def
        split: if_splits)
  show "allocs neutral (set_option p \<union> set_option q) s s'"
    using assms(3) a1 a2 a3 a4
    by (auto simp: check_project_id_and_register_token_body_def m1 g1 m2 g2 Let_def insert_commute
        intro!: allocs_dlog assms(2) dlog_formats split: if_splits)
qed

lemma check_project_quiet:
  assumes "esf_contract env" "heap_wf s"
  shows "quiet neutral s (snd (check_project_id_and_register_token_valid env s))"
proof -
  obtain v p q s' where b: "check_project_id_and_register_token_body env s = (v, p, q, s')"
    by (metis prod_cases4)
  note a = check_project_body_allocs [OF assms b]
  have "allocs neutral (set_option q) s (c_free p s')"
    using allocs_free [OF a(1) assms(2), of p] a(2) by (simp add: Un_Diff Int_commute Diff_triv)
  then have "quiet neutral s (c_free q (c_free p s'))"
    using assms(2) by (intro allocs_free_all) simp_all
  with b show ?thesis by (simp add: check_project_id_and_register_token_valid_def)
qed

lemma is_enrollment_mode_quiet:
  assumes "esf_contract env" "heap_wf s"
  shows "quiet neutral s (snd (is_enrollment_mode env s))"
proof -
  note p = check_provisioning_quiet [OF assms]
  note q = check_project_quiet [OF assms(1) allocs_heap_wf [OF p assms(2)]]
  show ?thesis
    using p quiet_trans [OF p q] by (simp add: is_enrollment_mode_def case_prod_beta Let_def)
qed

text \<open>The calls of the LED handler: neutral ones and LED settings.\<close>

fun led_call :: "ext_call \<Rightarrow> bool" where
  "led_call (ESF (Call_EsfLedManagerSetStatus i)) = True"
| "led_call c = neutral c"

fun led_settings :: "history \<Rightarrow> led_status_info list" where
  "led_settings [] = []"
| "led_settings (ESF (Call_EsfLedManagerSetStatus i) # cs) = i # led_settings cs"
| "led_settings (_ # cs) = led_settings cs"

lemma led_settings_append [simp]: "led_settings (xs @ ys) = led_settings xs @ led_settings ys"
  by (induction xs rule: led_settings.induct) auto

lemma neutral_led_settings: "list_all neutral cs \<Longrightarrow> led_settings cs = []"
  by (induction cs rule: led_settings.induct) auto

lemma neutral_led_call: "neutral c \<Longrightarrow> led_call c"
  by (cases c rule: led_call.cases) auto

lemma led_call_not_lock: "led_call c \<Longrightarrow> \<not> lock_call c"
  by (cases c rule: led_call.cases) (auto simp: neutral_not_lock)

lemma led_calls_balanced: "list_all led_call cs \<Longrightarrow> balanced cs"
  by (induction cs) (auto simp: balanced_other led_call_not_lock)

text \<open>A quiet step followed by LED settings \<open>ls\<close>.\<close>

definition sets_leds :: "led_status_info list \<Rightarrow> 's io_state_scheme \<Rightarrow> 's io_state_scheme \<Rightarrow> bool" where
  "sets_leds ls s s' \<longleftrightarrow> quiet led_call s s' \<and> (\<exists>cs. trace s' = trace s @ cs \<and> led_settings cs = ls)"

lemma sets_leds_trans: "sets_leds as s t \<Longrightarrow> sets_leds bs t u \<Longrightarrow> sets_leds (as @ bs) s u"
  by (fastforce simp: sets_leds_def intro: quiet_trans)

lemma quiet_sets_leds:
  assumes "quiet neutral s t"
  shows "sets_leds [] s t"
proof -
  obtain cs where "trace t = trace s @ cs" "list_all neutral cs" using allocs_facts(6) [OF assms] by blast
  with allocs_mono [OF assms neutral_led_call] show ?thesis by (simp add: sets_leds_def neutral_led_settings)
qed

lemma sets_leds_emit: "sets_leds [i] s (emit (ESF (Call_EsfLedManagerSetStatus i)) s)"
  by (simp add: sets_leds_def quiet_emit)

lemma sets_leds_heap_wf: "sets_leds ls s t \<Longrightarrow> heap_wf s \<Longrightarrow> heap_wf t"
  by (auto simp: sets_leds_def intro: allocs_heap_wf)

text \<open>The loop sets the LEDs in order up to and including the first that fails.\<close>

lemma set_led_loop_sets:
  assumes "heap_wf s"
  shows "\<exists>ls rest. infos = ls @ rest \<and> sets_leds ls s (snd (set_led_loop env infos s)) \<and>
    (fst (set_led_loop env infos s) = 0 \<and> rest = [] \<or>
     fst (set_led_loop env infos s) = -1 \<and> ls \<noteq> [] \<and>
     (\<exists>h. env_EsfLedManagerSetStatus env h (last ls) \<noteq> kEsfLedManagerSuccess env))"
  using assms
proof (induction infos arbitrary: s)
  case Nil
  then show ?case by (simp add: quiet_sets_leds)
next
  case (Cons i infos)
  let ?s = "emit (ESF (Call_EsfLedManagerSetStatus i)) s"
  have h: "heap_wf ?s" using Cons.prems by (simp add: heap_wf_def)
  show ?case
  proof (cases "env_EsfLedManagerSetStatus env (trace s) i = kEsfLedManagerSuccess env")
    case True
    from Cons.IH [OF h] obtain ls rest where "infos = ls @ rest"
      "sets_leds ls ?s (snd (set_led_loop env infos ?s))" and
      r: "fst (set_led_loop env infos ?s) = 0 \<and> rest = [] \<or> fst (set_led_loop env infos ?s) = -1 \<and> ls \<noteq> [] \<and>
       (\<exists>h. env_EsfLedManagerSetStatus env h (last ls) \<noteq> kEsfLedManagerSuccess env)" by blast
    moreover from this have "sets_leds (i # ls) s (snd (set_led_loop env infos ?s))"
      using sets_leds_trans [OF sets_leds_emit] by fastforce
    ultimately show ?thesis
      using True by (intro exI [of _ "i # ls"] exI [of _ rest]) auto
  next
    case False
    have "sets_leds [i] s (SystemDlog env LOG_ERR ''agent_status'' ''notifications.c'' 634
              ''%s: EsfLedManagerSetStatus failed, result=%u status=%u''
              [FStr ''agent_status_handler'', FInt (env_EsfLedManagerSetStatus env (trace s) i),
               FInt (env_led_status_number env (li_status i))] ?s)"
      using sets_leds_trans [OF sets_leds_emit quiet_sets_leds [OF SystemDlog_quiet [OF h dlog_formats(7)]]]
      by simp
    with False show ?thesis by (intro exI [of _ "[i]"] exI [of _ infos]) (auto simp: Let_def)
  qed
qed

text \<open>The four LED settings with exactly one enabled.\<close>

definition led_row :: "EvpAgentLedIndex \<Rightarrow> led_status_info list" where
  "led_row i = map (\<lambda>j. \<lparr>li_led = kEsfLedManagerTargetLedService, li_status = led_status_of j,
     li_enabled = (j = i)\<rparr>) EvpAgentLedIndices"

lemma led_row_eq:
  "map (led_status_init(i := (led_status_init i)\<lparr>li_enabled := True\<rparr>)) EvpAgentLedIndices = led_row i"
  by (cases i) (simp_all add: led_row_def led_status_init_def EvpAgentLedIndices_def)

definition led_index :: "bool \<Rightarrow> bool \<Rightarrow> EvpAgentLedIndex" where
  "led_index connected tls =
     (if connected then if tls then EvpAgentLedIndexConnectedWithTLS else EvpAgentLedIndexConnectedWithoutTLS
      else if tls then EvpAgentLedIndexDisconnectedConnectingWithTLS
      else EvpAgentLedIndexDisconnectedConnectingWithoutTLS)"

lemma agent_status_handler_eq:
  "agent_status_handler env None s = (-1, SystemDlog env LOG_ERR ''agent_status'' ''notifications.c'' 574
     ''%s: args is NULL'' [FStr ''agent_status_handler''] s)"
  "agent_status_handler env (Some ''connected'') s =
     (if fst (is_enrollment_mode env s) then (0, snd (is_enrollment_mode env s))
      else let (tls, t) = is_tls_connection env (snd (is_enrollment_mode env s))
           in set_led_loop env (led_row (led_index True tls)) t)"
  "agent_status_handler env (Some ''disconnected'') s =
     (let (tls, t) = is_tls_connection env s in set_led_loop env (led_row (led_index False tls)) t)"
  "NUL \<notin> set a \<Longrightarrow> a \<notin> {''connected'', ''disconnected''} \<Longrightarrow>
   agent_status_handler env (Some a) s =
     (-1, SystemDlog env LOG_ERR ''agent_status'' ''notifications.c'' 626
        ''%s: unknown agent/status: %s'' [FStr ''agent_status_handler'', FStr a] s)"
proof -
  show "agent_status_handler env (Some ''connected'') s =
     (if fst (is_enrollment_mode env s) then (0, snd (is_enrollment_mode env s))
      else let (tls, t) = is_tls_connection env (snd (is_enrollment_mode env s))
           in set_led_loop env (led_row (led_index True tls)) t)"
    by (simp add: agent_status_handler_def case_prod_beta Let_def led_row_eq [symmetric] led_index_def
        del: fun_upd_apply)
  show "agent_status_handler env (Some ''disconnected'') s =
     (let (tls, t) = is_tls_connection env s in set_led_loop env (led_row (led_index False tls)) t)"
    by (simp add: agent_status_handler_def case_prod_beta Let_def led_row_eq [symmetric] led_index_def
        del: fun_upd_apply)
  show "agent_status_handler env (Some a) s =
     (-1, SystemDlog env LOG_ERR ''agent_status'' ''notifications.c'' 626
        ''%s: unknown agent/status: %s'' [FStr ''agent_status_handler'', FStr a] s)"
    if "NUL \<notin> set a" "a \<notin> {''connected'', ''disconnected''}"
  proof -
    have "strcmp a ''connected'' \<noteq> 0" "strcmp a ''disconnected'' \<noteq> 0"
      using strcmp_eq_0 [OF that(1), of "''connected''"] strcmp_eq_0 [OF that(1), of "''disconnected''"] that(2)
      by auto
    then show ?thesis by (simp add: agent_status_handler_def)
  qed
qed (simp add: agent_status_handler_def)

text \<open>The two statuses: the state in which the TLS setting is asked, and the LED it selects.\<close>

definition status_check :: "'e notif_env_scheme \<Rightarrow> bool \<Rightarrow> 's esf_state_scheme \<Rightarrow> 's esf_state_scheme" where
  "status_check env connected s = (if connected then snd (is_enrollment_mode env s) else s)"

definition status_name :: "bool \<Rightarrow> string" where
  "status_name connected = (if connected then ''connected'' else ''disconnected'')"

definition handler_led :: "'e notif_env_scheme \<Rightarrow> bool \<Rightarrow> 's esf_state_scheme \<Rightarrow> EvpAgentLedIndex" where
  "handler_led env connected s = led_index connected (fst (is_tls_connection env (status_check env connected s)))"

lemma status_check_quiet:
  "esf_contract env \<Longrightarrow> heap_wf s \<Longrightarrow> quiet neutral s (status_check env connected s)"
  by (simp add: status_check_def is_enrollment_mode_quiet)

lemma agent_status_sets_leds:
  assumes "esf_contract env" "heap_wf s" "connected \<Longrightarrow> \<not> fst (is_enrollment_mode env s)"
  shows "\<exists>ls rest. led_row (handler_led env connected s) = ls @ rest \<and>
    sets_leds ls s (snd (agent_status_handler env (Some (status_name connected)) s)) \<and>
    (fst (agent_status_handler env (Some (status_name connected)) s) = 0 \<and> rest = [] \<or>
     fst (agent_status_handler env (Some (status_name connected)) s) = -1 \<and> ls \<noteq> [] \<and>
     (\<exists>h. env_EsfLedManagerSetStatus env h (last ls) \<noteq> kEsfLedManagerSuccess env))"
proof -
  let ?t = "snd (is_tls_connection env (status_check env connected s))"
  let ?row = "led_row (handler_led env connected s)"
  have eq: "agent_status_handler env (Some (status_name connected)) s = set_led_loop env ?row ?t"
    using assms(3) by (simp add: status_name_def handler_led_def status_check_def agent_status_handler_eq
        case_prod_beta Let_def)
  have q: "quiet neutral s ?t"
    using quiet_trans [OF status_check_quiet [OF assms(1,2)] is_tls_enabled_quiet]
    by (simp add: is_tls_connection_def)
  from set_led_loop_sets [OF allocs_heap_wf [OF q assms(2)], of ?row env]
  obtain ls rest where l: "?row = ls @ rest" "sets_leds ls ?t (snd (set_led_loop env ?row ?t))"
    "fst (set_led_loop env ?row ?t) = 0 \<and> rest = [] \<or> fst (set_led_loop env ?row ?t) = -1 \<and> ls \<noteq> [] \<and>
     (\<exists>h. env_EsfLedManagerSetStatus env h (last ls) \<noteq> kEsfLedManagerSuccess env)" by blast
  have "sets_leds ls s (snd (set_led_loop env ?row ?t))"
    using sets_leds_trans [OF quiet_sets_leds [OF q] l(2)] by simp
  with l show ?thesis unfolding eq by blast
qed

text \<open>The enrollment mode when the system manager answers steadily and memory is available.\<close>

lemma sysmgr_string:
  assumes "\<And>h n. env_SystemManagerGet env h item n = (kEsfSystemManagerResultOk, take n (v @ [NUL]))"
    and "NUL \<notin> set v" "0 < n" "length buf = n"
  shows "\<exists>buf' s'. EsfSystemManagerGet env item buf n s = (kEsfSystemManagerResultOk, buf', s') \<and>
    (cstr buf' = [] \<longleftrightarrow> v = [])"
proof -
  have "cstr (write_bytes buf (take n (v @ [NUL]))) = [] \<longleftrightarrow> v = []"
    using assms(2,3) by (cases v; cases n) (auto simp: write_bytes_def cstr_def)
  with assms show ?thesis
    by (simp add: EsfSystemManagerGet_def store_bytes_def Let_def del: take_append)
qed

lemma check_project_value:
  assumes "esf_contract env" "\<And>h a. env_malloc env h a"
    and "\<And>h item n. env_SystemManagerGet env h item n = (kEsfSystemManagerResultOk, take n (val item @ [NUL]))"
    and "\<And>item. NUL \<notin> set (val item)"
  shows "fst (check_project_id_and_register_token_valid env s) \<longleftrightarrow> val ProjectId \<noteq> [] \<and> val RegisterToken \<noteq> []"
proof -
  let ?n = "env_size env ESF_SYSTEM_MANAGER_PROJECT_ID_MAX_SIZE"
  let ?k = "env_size env ESF_SYSTEM_MANAGER_REGISTER_TOKEN_MAX_SIZE"
  have pos: "0 < ?n" "0 < ?k" using assms(1) by (simp_all add: esf_contract_def)
  obtain p s1 where m1: "c_malloc env (Alloc_project_id ?n) s = (Some p, s1)"
    using assms(2) by (simp add: c_malloc_def)
  obtain b2 s2 where g1: "EsfSystemManagerGet env ProjectId (uninit_block env ?n s1) ?n s1 =
      (kEsfSystemManagerResultOk, b2, s2)" "cstr b2 = [] \<longleftrightarrow> val ProjectId = []"
    using sysmgr_string [OF assms(3,4) pos(1), of "uninit_block env ?n s1" ProjectId s1]
    by (auto simp: uninit_block_def)
  obtain q s3 where m2: "c_malloc env (Alloc_register_token ?k) s2 = (Some q, s3)"
    using assms(2) by (simp add: c_malloc_def)
  obtain b4 s4 where g2: "EsfSystemManagerGet env RegisterToken (uninit_block env ?k s3) ?k s3 =
      (kEsfSystemManagerResultOk, b4, s4)" "cstr b4 = [] \<longleftrightarrow> val RegisterToken = []"
    using sysmgr_string [OF assms(3,4) pos(2), of "uninit_block env ?k s3" RegisterToken s3]
    by (auto simp: uninit_block_def)
  show ?thesis
    by (simp add: check_project_id_and_register_token_valid_def check_project_id_and_register_token_body_def
        m1 g1 m2 g2 Let_def)
qed

lemma check_provisioning_value:
  assumes "esf_contract env" "\<And>h a. env_malloc env h a"
    and "\<And>h item n. env_SystemManagerGet env h item n = (kEsfSystemManagerResultOk, take n (val item @ [NUL]))"
    and "\<And>item. NUL \<notin> set (val item)"
    and "length (val EvpHubUrl) \<le> env_size env ESF_SYSTEM_MANAGER_EVP_HUB_URL_MAX_SIZE"
  shows "fst (check_provisioning_service_mqtt_host env s) \<longleftrightarrow> val EvpHubUrl = PROVISIONING_SERVICE_URL"
proof -
  let ?n = "env_size env ESF_SYSTEM_MANAGER_EVP_HUB_URL_MAX_SIZE"
  let ?v = "val EvpHubUrl"
  let ?k = "EVP_CONFIG_MQTT_HOST"
  have "config_max_size env ?k = Some ?n"
    by (simp add: config_max_size_def g_max_sizes_designators_def)
  then have k: "\<not> length (g_max_sizes env) \<le> config_key_value env ?k" "g_max_sizes env ! config_key_value env ?k = ?n"
    using g_max_sizes_lookup(1) [of env ?k ?n] assms(1) by (auto simp: esf_contract_def)
  let ?buf = "write_bytes (replicate (Suc ?n) NUL) (take ?n (?v @ [NUL]))"
  have c: "cstr ?buf = ?v"
  proof (cases "length ?v < ?n")
    case True
    then show ?thesis using assms(4) by (simp add: write_bytes_def cstr_append_NUL)
  next
    case False
    with assms(5) have "length ?v = ?n" by simp
    then show ?thesis using assms(4) [of EvpHubUrl] 
      by (simp add: write_bytes_def cstr_append cstr_id del: replicate_Suc)
  qed
  have g: "EsfSystemManagerGet env EvpHubUrl (replicate (Suc ?n) NUL) ?n u =
      (kEsfSystemManagerResultOk, ?buf, emit (ESF (Call_EsfSystemManagerGet EvpHubUrl ?n)) u)"
    for u :: "'b esf_state_scheme"
    using assms(3) by (simp add: EsfSystemManagerGet_def store_bytes_def Let_def min_le_iff_disj
        del: take_append replicate_Suc)
  have "map_option cfg_value (fst (evp_agent_esf_read_config env ?k s)) = Some ?buf"
    using k assms(2) g by (simp add: evp_agent_esf_read_config_def Let_def c_malloc_def
        read_config_switch_def config_from_sysmgr_def del: replicate_Suc take_append)
  then obtain cfg s' where r: "evp_agent_esf_read_config env ?k s = (Some cfg, s')" "cfg_value cfg = ?buf"
    by (cases "evp_agent_esf_read_config env ?k s") auto
  have "NUL \<notin> set PROVISIONING_SERVICE_URL" by (simp add: PROVISIONING_SERVICE_URL_def)
  with r c assms(4) show ?thesis
    by (simp add: check_provisioning_service_mqtt_host_def strcmp_eq_0)
qed

lemma is_enrollment_mode_value:
  assumes "esf_contract env" "\<And>h a. env_malloc env h a"
    and "\<And>h item n. env_SystemManagerGet env h item n = (kEsfSystemManagerResultOk, take n (val item @ [NUL]))"
    and "\<And>item. NUL \<notin> set (val item)"
    and "length (val EvpHubUrl) \<le> env_size env ESF_SYSTEM_MANAGER_EVP_HUB_URL_MAX_SIZE"
  shows "fst (is_enrollment_mode env s) \<longleftrightarrow> val EvpHubUrl = PROVISIONING_SERVICE_URL \<or>
    val ProjectId \<noteq> [] \<and> val RegisterToken \<noteq> []"
  using check_provisioning_value [OF assms, of s]
    check_project_value [OF assms(1-4), of "snd (check_provisioning_service_mqtt_host env s)"]
  by (simp add: is_enrollment_mode_def case_prod_beta Let_def)

lemma notif_env_ok_facts:
  "esf_contract notif_env_ok" "env_malloc notif_env_ok h a"
  "env_SystemManagerGet notif_env_ok h item n = (kEsfSystemManagerResultOk, take n (''mqtt.example'' @ [NUL]))"
  "env_size notif_env_ok m = 64" "env_EsfLedManagerSetStatus notif_env_ok h i = kEsfLedManagerSuccess notif_env_ok"
  "env_GetEvpTls notif_env_ok h = (kEsfSystemManagerResultOk, EvpTlsOther 0)"
  "env_notification_subscribe notif_env_ok h tp = 0"
  by (simp_all add: notif_env_ok_def config_env_ok_def esf_contract_def esf_env_ok_def
      log_env_ok_def log_env.defs esf_env.defs config_env.defs inj_key_number)

section \<open>Properties\<close>

lemma led_row_settings:
  "led_row (led_index connected tls) =
     map (\<lambda>(status, enabled). \<lparr>li_led = kEsfLedManagerTargetLedService, li_status = status, li_enabled = enabled\<rparr>)
       [(kEsfLedManagerLedStatusConnectedWithTLS, connected \<and> tls),
        (kEsfLedManagerLedStatusConnectedWithoutTLS, connected \<and> \<not> tls),
        (kEsfLedManagerLedStatusDisconnectedConnectingWithTLS, \<not> connected \<and> tls),
        (kEsfLedManagerLedStatusDisconnectedConnectingWithoutTLS, \<not> connected \<and> \<not> tls)]"
  by (cases connected; cases tls) (simp_all add: led_row_def led_index_def EvpAgentLedIndices_def)

lemma is_tls_connection_trace:
  "\<exists>ws. trace (snd (is_tls_connection env s)) = trace s @ [ESF Call_EsfSystemManagerGetEvpTls] @ ws \<and>
     list_all neutral ws"
  by (auto simp: is_tls_connection_def evp_agent_esf_is_tls_enabled_def EVP_AGENT_WARN_def Let_def
      split: prod.splits)

text \<open>C10. On \<open>connected\<close> outside enrollment mode and on \<open>disconnected\<close>, when the LED manager
  accepts the settings, the handler asks for the TLS setting and then sets the four LED states
  in order, the one of the connection state and the TLS setting enabled and the other three
  disabled. TLS counts as off only if the system manager answers that it is disabled.\<close>

theorem agent_status_led_matches_connection:
  assumes "esf_contract env" "heap_wf s" "connected \<longrightarrow> \<not> fst (is_enrollment_mode env s)"
    and "\<And>h i. env_EsfLedManagerSetStatus env h i = kEsfLedManagerSuccess env"
    and "agent_status_handler env (Some (if connected then ''connected'' else ''disconnected'')) s = (ret, t)"
  shows "ret = 0 \<and> (\<exists>pre post tls.
    trace t = trace s @ pre @ [ESF Call_EsfSystemManagerGetEvpTls] @ post \<and> led_settings pre = [] \<and>
    (tls \<longleftrightarrow> env_GetEvpTls env (trace s @ pre) \<noteq> (kEsfSystemManagerResultOk, kEsfSystemManagerEvpTlsDisable)) \<and>
    led_settings post =
      map (\<lambda>(status, enabled). \<lparr>li_led = kEsfLedManagerTargetLedService, li_status = status, li_enabled = enabled\<rparr>)
        [(kEsfLedManagerLedStatusConnectedWithTLS, connected \<and> tls),
         (kEsfLedManagerLedStatusConnectedWithoutTLS, connected \<and> \<not> tls),
         (kEsfLedManagerLedStatusDisconnectedConnectingWithTLS, \<not> connected \<and> tls),
         (kEsfLedManagerLedStatusDisconnectedConnectingWithoutTLS, \<not> connected \<and> \<not> tls)])"
proof -
  let ?c = "status_check env connected s"
  let ?tls = "fst (is_tls_connection env ?c)" and ?q = "snd (is_tls_connection env ?c)"
  let ?row = "led_row (led_index connected ?tls)"
  have eq: "(ret, t) = set_led_loop env ?row ?q"
    using assms(3,5) by (auto simp: status_check_def agent_status_handler_eq case_prod_beta Let_def)
  obtain pre where pre: "trace ?c = trace s @ pre" "list_all neutral pre"
    using allocs_facts(6) [OF status_check_quiet [OF assms(1,2)]] by blast
  obtain ws where ws: "trace ?q = trace ?c @ [ESF Call_EsfSystemManagerGetEvpTls] @ ws" "list_all neutral ws"
    using is_tls_connection_trace by blast
  have "quiet neutral s ?q"
    using quiet_trans [OF status_check_quiet [OF assms(1,2)] is_tls_enabled_quiet]
    by (simp add: is_tls_connection_def)
  then have "heap_wf ?q" using assms(2) by (rule allocs_heap_wf)
  from set_led_loop_sets [OF this, of ?row env] assms(4) have "ret = 0 \<and> sets_leds ?row ?q t"
    unfolding eq [symmetric] by auto
  then obtain cs where cs: "ret = 0" "trace t = trace ?q @ cs" "led_settings cs = ?row"
    by (auto simp: sets_leds_def)
  have tls: "?tls \<longleftrightarrow> env_GetEvpTls env (trace s @ pre) \<noteq> (kEsfSystemManagerResultOk, kEsfSystemManagerEvpTlsDisable)"
    using is_tls_enabled_fail_safe [of env ?c] pre(1) by (simp add: is_tls_connection_def)
  have "trace t = trace s @ pre @ [ESF Call_EsfSystemManagerGetEvpTls] @ (ws @ cs)"
    using cs(2) ws(1) pre(1) by simp
  moreover have "led_settings pre = []" "led_settings (ws @ cs) = ?row"
    using neutral_led_settings pre(2) ws(2) cs(3) by simp_all
  ultimately show ?thesis using cs(1) tls unfolding led_row_settings by blast
qed

theorem agent_status_led_matches_connection_witness:
  "fst (agent_status_handler notif_env_ok (Some ''disconnected'') notif_boot) = 0 \<and>
   (\<exists>cs. trace (snd (agent_status_handler notif_env_ok (Some ''disconnected'') notif_boot)) = cs \<and>
     map li_enabled (led_settings cs) = [False, False, True, False])"
proof -
  let ?r = "agent_status_handler notif_env_ok (Some ''disconnected'') notif_boot"
  have "agent_status_handler notif_env_ok (Some (if False then ''connected'' else ''disconnected'')) notif_boot =
      (fst ?r, snd ?r)" by simp
  from agent_status_led_matches_connection [OF notif_env_ok_facts(1) notif_boot_facts(4) _ _ this]
  show ?thesis by (auto simp: notif_env_ok_facts notif_boot_facts)
qed

text \<open>C30. In enrollment mode \<open>connected\<close> leaves the LEDs alone and succeeds.\<close>

theorem agent_status_enrollment_keeps_leds:
  assumes "esf_contract env" "heap_wf s" "fst (is_enrollment_mode env s)"
  shows "fst (agent_status_handler env (Some ''connected'') s) = 0 \<and>
    (\<exists>cs. trace (snd (agent_status_handler env (Some ''connected'') s)) = trace s @ cs \<and> led_settings cs = [])"
  using assms(3) quiet_sets_leds [OF is_enrollment_mode_quiet [OF assms(1,2)]]
  by (auto simp: agent_status_handler_eq sets_leds_def)

theorem agent_status_enrollment_keeps_leds_witness:
  "fst (is_enrollment_mode notif_env_ok notif_boot) \<and>
   (\<exists>cs. trace (snd (agent_status_handler notif_env_ok (Some ''connected'') notif_boot)) = cs \<and> led_settings cs = [])"
proof -
  have "fst (is_enrollment_mode notif_env_ok notif_boot)"
    using is_enrollment_mode_value [OF notif_env_ok_facts(1,2), of "\<lambda>_. ''mqtt.example''" notif_boot]
    by (simp add: notif_env_ok_facts)
  with agent_status_enrollment_keeps_leds [OF notif_env_ok_facts(1) notif_boot_facts(4) this]
  show ?thesis by (simp add: notif_boot_facts)
qed

text \<open>C29. Whatever the event is, the LED handler leaves the heap as it was, does nothing undefined
  and takes no lock. It returns 0 or -1; on -1 the event was NULL, the status unknown, or the
  last LED setting it made was refused.\<close>

theorem agent_status_safe:
  assumes "esf_contract env" "heap_wf s" "\<forall>a. args = Some a \<longrightarrow> NUL \<notin> set a"
    and "agent_status_handler env args s = (ret, s')"
  shows "live s' = live s \<and> ub s' = ub s \<and>
    (\<exists>cs. trace s' = trace s @ cs \<and> balanced cs \<and>
      (ret = 0 \<or> ret = -1 \<and> (args \<notin> {Some ''connected'', Some ''disconnected''} \<and> led_settings cs = [] \<or>
        led_settings cs \<noteq> [] \<and>
        (\<exists>h. env_EsfLedManagerSetStatus env h (last (led_settings cs)) \<noteq> kEsfLedManagerSuccess env))))"
proof -
  have fin: ?thesis if sl: "sets_leds ls s s'"
    and rt: "ret = 0 \<or> ret = -1 \<and> (args \<notin> {Some ''connected'', Some ''disconnected''} \<and> ls = [] \<or>
        ls \<noteq> [] \<and> (\<exists>h. env_EsfLedManagerSetStatus env h (last ls) \<noteq> kEsfLedManagerSuccess env))" for ls
  proof -
    have q: "quiet led_call s s'" using sl by (simp add: sets_leds_def)
    obtain cs where cs: "trace s' = trace s @ cs" "led_settings cs = ls"
      using sl by (auto simp: sets_leds_def)
    moreover from cs(1) have "list_all led_call cs" using allocs_facts(6) [OF q] by auto
    ultimately show ?thesis using rt allocs_facts(1,2) [OF q] led_calls_balanced by auto
  qed
  consider "args = None" | a where "args = Some a" "a \<notin> {''connected'', ''disconnected''}"
    | "args = Some ''connected''" "fst (is_enrollment_mode env s)"
    | c where "args = Some (status_name c)" "c \<longrightarrow> \<not> fst (is_enrollment_mode env s)"
    by (cases args) (auto simp: status_name_def, metis+)
  then show ?thesis
  proof cases
    case 1
    with assms(4) show ?thesis
      by (intro fin [of "[]"]) (auto simp: agent_status_handler_eq intro!: quiet_sets_leds SystemDlog_quiet
          dlog_formats assms(2))
  next
    case 2
    with assms(3,4) show ?thesis
      by (intro fin [of "[]"]) (auto simp: agent_status_handler_eq intro!: quiet_sets_leds SystemDlog_quiet
          dlog_formats assms(2))
  next
    case 3
    with assms(4) is_enrollment_mode_quiet [OF assms(1,2)] show ?thesis
      by (intro fin [of "[]"]) (auto simp: agent_status_handler_eq intro!: quiet_sets_leds)
  next
    case 4
    then obtain ls rest where "sets_leds ls s s'" "ret = 0 \<and> rest = [] \<or> ret = -1 \<and> ls \<noteq> [] \<and>
        (\<exists>h. env_EsfLedManagerSetStatus env h (last ls) \<noteq> kEsfLedManagerSuccess env)"
      using agent_status_sets_leds [OF assms(1,2), of c] assms(4) by auto
    then show ?thesis by (intro fin [of ls]) auto
  qed
qed

theorem agent_status_safe_witness:
  "fst (agent_status_handler notif_env_ok (Some ''reset'') notif_boot) = -1 \<and>
   live (snd (agent_status_handler notif_env_ok (Some ''reset'') notif_boot)) = {} \<and>
   \<not> ub (snd (agent_status_handler notif_env_ok (Some ''reset'') notif_boot))"
proof -
  let ?r = "agent_status_handler notif_env_ok (Some ''reset'') notif_boot"
  have "fst ?r = -1" by (simp add: agent_status_handler_eq)
  moreover have "live (snd ?r) = live notif_boot \<and> ub (snd ?r) = ub notif_boot"
    using agent_status_safe [OF notif_env_ok_facts(1) notif_boot_facts(4), of "Some ''reset''" "fst ?r" "snd ?r"]
    by simp
  ultimately show ?thesis by (simp add: notif_boot_facts)
qed

text \<open>C25. The device is in enrollment mode exactly when its MQTT host is the provisioning service
  or both a project id and a register token are stored, when the system manager answers
  steadily and memory is available.\<close>

theorem is_enrollment_mode_correct:
  assumes "esf_contract env" "\<And>h a. env_malloc env h a"
    and "\<And>h item n. env_SystemManagerGet env h item n = (kEsfSystemManagerResultOk, take n (val item @ [NUL]))"
    and "\<And>item. NUL \<notin> set (val item)"
    and "length (val EvpHubUrl) \<le> env_size env ESF_SYSTEM_MANAGER_EVP_HUB_URL_MAX_SIZE"
  shows "fst (is_enrollment_mode env s) \<longleftrightarrow> val EvpHubUrl = PROVISIONING_SERVICE_URL \<or>
    val ProjectId \<noteq> [] \<and> val RegisterToken \<noteq> []"
  by (rule is_enrollment_mode_value [OF assms])

theorem is_enrollment_mode_correct_witness: "fst (is_enrollment_mode notif_env_ok notif_boot)"
  using is_enrollment_mode_correct [OF notif_env_ok_facts(1,2), of "\<lambda>_. ''mqtt.example''" notif_boot]
  by (simp add: notif_env_ok_facts)

section \<open>Registration of the handlers\<close>

fun subscribed :: "history \<Rightarrow> (string \<times> notification_handler) list" where
  "subscribed [] = []"
| "subscribed (EVP (Call_evp_agent_notification_subscribe ctxt topic handler) # cs) =
     (topic, handler) # subscribed cs"
| "subscribed (_ # cs) = subscribed cs"

lemma subscribed_append [simp]: "subscribed (xs @ ys) = subscribed xs @ subscribed ys"
  by (induction xs rule: subscribed.induct) auto

lemma subscribed_log [simp]: "subscribed [EVP_AGENT_ERR f l m a] = []" "subscribed [EVP_AGENT_WARN f l m a] = []"
  by (simp_all add: EVP_AGENT_ERR_def EVP_AGENT_WARN_def)

text \<open>Subscribing changes nothing but the history, and stops at the first refusal.\<close>

lemma subscribe_all_result:
  "\<exists>cs rest. snd (subscribe_all env ctxt subs s) = s\<lparr>trace := trace s @ cs\<rparr> \<and> balanced cs \<and>
    map (\<lambda>(topic, handler, _). (topic, handler)) subs = subscribed cs @ rest \<and>
    (fst (subscribe_all env ctxt subs s) = 0 \<and> rest = [] \<or>
     fst (subscribe_all env ctxt subs s) \<noteq> 0 \<and> subscribed cs \<noteq> [] \<and>
     (\<exists>h. env_notification_subscribe env h (fst (last (subscribed cs))) = fst (subscribe_all env ctxt subs s)))"
proof (induction subs arbitrary: s)
  case Nil
  show ?case by (auto intro!: exI [of _ "[]"])
next
  case (Cons sub subs)
  obtain topic handler line err where sub: "sub = (topic, handler, line, err)" by (cases sub)
  let ?c = "EVP (Call_evp_agent_notification_subscribe ctxt topic handler)"
  show ?case
  proof (cases "env_notification_subscribe env (trace s) topic = 0")
    case True
    from Cons.IH [of "emit ?c s"] obtain cs rest where cs:
      "snd (subscribe_all env ctxt subs (emit ?c s)) = (emit ?c s)\<lparr>trace := trace (emit ?c s) @ cs\<rparr>" "balanced cs"
      "map (\<lambda>(topic, handler, _). (topic, handler)) subs = subscribed cs @ rest"
      "fst (subscribe_all env ctxt subs (emit ?c s)) = 0 \<and> rest = [] \<or>
       fst (subscribe_all env ctxt subs (emit ?c s)) \<noteq> 0 \<and> subscribed cs \<noteq> [] \<and>
       (\<exists>h. env_notification_subscribe env h (fst (last (subscribed cs))) =
          fst (subscribe_all env ctxt subs (emit ?c s)))" by blast
    then show ?thesis
      using True sub by (intro exI [of _ "?c # cs"] exI [of _ rest]) (auto simp: balanced_other emit_def)
  next
    case False
    then show ?thesis
      using sub by (intro exI [of _ "[?c, EVP_AGENT_ERR ''notifications.c'' line err []]"]
          exI [of _ "map (\<lambda>(topic, handler, _). (topic, handler)) subs"])
        (auto simp: balanced_other emit_def Let_def EVP_AGENT_ERR_def)
  qed
qed

lemma SystemRegElog_calls:
  "\<exists>cs. trace (SystemRegElog c v m s) = trace s @ cs \<and> subscribed cs = []"
  by (auto simp: SystemRegElog_eq EVP_AGENT_WARN_def)



end
