(* ===== verification/Agent_Api.thy ===== *)
theory Agent_Api
  imports Agent_Status
begin

text \<open>
  \<open>evp-agent.c\<close> without the thread: the global \<open>g_evp_agent\<close>, the queue of WASM native symbols,
  the functions of \<open>sdk_backdoor.h\<close> and the callbacks that the agent library makes.

  The agent context is an object of the library: \<open>agents\<close> is the set of contexts that
  \<open>evp_agent_setup\<close> has returned and \<open>evp_agent_free\<close> has not taken back. Handing any other
  pointer to the library is undefined. While a library call runs, the library may call back
  into the program: the log handler, the out-of-memory handler, the notification handlers and
  the configuration functions of \<open>config.c\<close>; which callbacks it makes, with which arguments and
  in which order, is an answer of the environment like its result.
\<close>

section \<open>State\<close>

record native_symbol_entry =
  ne_block :: nat
  ne_module_name :: string
  ne_native_symbols :: nat
  ne_n_native_symbols :: u32

datatype agent_cmd = EVP_AGENT_LOOP | EVP_AGENT_UNDEPLOY_ALL

record agent_state = notif_state +
  g_evp_agent_ctxt :: "nat option"
  g_evp_agent_cmd :: agent_cmd
  g_evp_agent_signalled :: bool
  g_evp_agent_started :: bool
  g_evp_agent_ret :: int
  g_wasm_native_symbols :: "native_symbol_entry list"
  agents :: "nat set"

datatype agent_callback =
    Callback_dlog int string int string "fmt_arg list"
  | Callback_out_of_memory string int string nat
  | Callback_elog elog_notification
  | Callback_agent_status "string option"
  | Callback_config config_key nat
  | Callback_config_is_pk_file config_key

record agent_env = notif_env +
  env_evp :: "history \<Rightarrow> evp_call \<Rightarrow> int \<times> agent_callback list"
  env_evp_agent_setup :: "history \<Rightarrow> nat"
  env_sys_client :: "history \<Rightarrow> nat option"
  env_wasm_register_natives :: "history \<Rightarrow> string \<Rightarrow> nat \<Rightarrow> u32 \<Rightarrow> bool"
  EVP_AGENT_STATUS_INIT :: int
  EVP_AGAIN :: int
  env_pthread_setname_np :: "history \<Rightarrow> int"
  env_pthread_create :: "history \<Rightarrow> int"
  env_signalled :: "history \<Rightarrow> bool"
  env_SwWdt :: "history \<Rightarrow> esf_call \<Rightarrow> int"
  kEsfPwrMgrOk :: int

section \<open>Callbacks and library calls\<close>

definition out_of_memory ::
  "string \<Rightarrow> int \<Rightarrow> string \<Rightarrow> nat \<Rightarrow> 's io_state_scheme \<Rightarrow> 's io_state_scheme" where
  "out_of_memory file line func sz s =
     emit (ESF (Call_EsfSystemManagerExecReboot kEsfSystemManagerRebootTypeEvpMemoryAllocFailure))
       (emit (ESF (Call_UtilityLogWriteDLog kUtilityLogDlogLevelCritical
          (''FATAL: Out of memory in %s() at %s:%d, requested %zu bytes - '' @ ''System will reboot'')
          [FStr func, FStr file, FInt line, FInt (int sz)])) s)"

text \<open>
  A configuration session of the library: it gets a value, loads and unloads it some number of
  times through the pointer and size it was given, and releases the value and the structure,
  which it owns after \<open>get_config_impl\<close>. The session ends within the library call.
\<close>

fun config_uses ::
  "'e config_env_scheme \<Rightarrow> nat \<Rightarrow> evp_config \<Rightarrow> 's io_state_scheme \<Rightarrow> evp_config \<times> 's io_state_scheme" where
  "config_uses env 0 cfg s = (cfg, s)"
| "config_uses env (Suc n) cfg s =
     (let (ret, vp, sz) = load_config_impl cfg;
          (cfg1, s1) = unload_config_impl env cfg vp sz s
      in config_uses env n cfg1 s1)"

definition config_session ::
  "'e config_env_scheme \<Rightarrow> config_key \<Rightarrow> nat \<Rightarrow> 's esf_state_scheme \<Rightarrow> 's esf_state_scheme" where
  "config_session env key n s =
     (case get_config_impl env key s of
        (None, s1) \<Rightarrow> s1
      | (Some cfg, s1) \<Rightarrow>
          (let (cfg1, s2) = config_uses env n cfg s1
           in c_free (Some (cfg_block cfg1)) (c_free (Some (cfg_value_block cfg1)) s2)))"

definition agent_callback ::
  "'e notif_env_scheme \<Rightarrow> agent_callback \<Rightarrow> 's notif_state_scheme \<Rightarrow> 's notif_state_scheme" where
  "agent_callback env cb s =
     (case cb of
        Callback_dlog lvl file line fmt ap \<Rightarrow> evp_agent_dlog_handler env lvl file line fmt ap s
      | Callback_out_of_memory file line func sz \<Rightarrow> out_of_memory file line func sz s
      | Callback_elog n \<Rightarrow> elog_notify env n s
      | Callback_agent_status a \<Rightarrow> snd (agent_status_handler env a s)
      | Callback_config key n \<Rightarrow> config_session env key n s
      | Callback_config_is_pk_file key \<Rightarrow> let is_pk = config_is_pk_file key in s)"

definition evp_lib ::
  "'e agent_env_scheme \<Rightarrow> nat \<Rightarrow> evp_call \<Rightarrow> 's agent_state_scheme \<Rightarrow> int \<times> 's agent_state_scheme" where
  "evp_lib env ctxt call s =
     (let (ret, cbs) = env_evp env (trace s) call;
          s1 = emit (EVP call) s;
          s2 = (if ctxt \<in> agents s then s1 else undefined_behaviour s1)
      in (ret, fold (agent_callback env) cbs s2))"

section \<open>The backdoor functions\<close>

definition get_backdoor_context :: "'s agent_state_scheme \<Rightarrow> nat option \<times> 's agent_state_scheme" where
  "get_backdoor_context s =
     (let s1 = mutex_lock g_evp_agent_lock s;
          ctxt = g_evp_agent_ctxt s1
      in (ctxt, mutex_unlock g_evp_agent_lock s1))"

definition set_backdoor_context :: "nat option \<Rightarrow> 's agent_state_scheme \<Rightarrow> 's agent_state_scheme" where
  "set_backdoor_context ctxt s =
     (let s1 = mutex_lock g_evp_agent_lock s;
          s2 = s1\<lparr>g_evp_agent_ctxt := ctxt\<rparr>
      in mutex_unlock g_evp_agent_lock s2)"

definition EVP_getAgentStatus ::
  "'e agent_env_scheme \<Rightarrow> 's agent_state_scheme \<Rightarrow> int \<times> 's agent_state_scheme" where
  "EVP_getAgentStatus env s =
     (let (ctxt, s1) = get_backdoor_context s
      in case ctxt of
           None \<Rightarrow> (EVP_AGENT_STATUS_INIT env, s1)
         | Some c \<Rightarrow> evp_lib env c (Call_evp_agent_get_status c) s1)"

definition EVP_Agent_register_sys_client ::
  "'e agent_env_scheme \<Rightarrow> 's agent_state_scheme \<Rightarrow> nat option \<times> 's agent_state_scheme" where
  "EVP_Agent_register_sys_client env s =
     (let (ctxt, s1) = get_backdoor_context s
      in case ctxt of
           None \<Rightarrow> (None, s1)
         | Some c \<Rightarrow> (env_sys_client env (trace s1),
                      snd (evp_lib env c (Call_evp_agent_register_sys_client c) s1)))"

definition EVP_Agent_unregister_sys_client ::
  "'e agent_env_scheme \<Rightarrow> nat \<Rightarrow> 's agent_state_scheme \<Rightarrow> int \<times> 's agent_state_scheme" where
  "EVP_Agent_unregister_sys_client env client s =
     (let (ctxt, s1) = get_backdoor_context s
      in case ctxt of
           None \<Rightarrow> (-1, s1)
         | Some c \<Rightarrow> evp_lib env c (Call_evp_agent_unregister_sys_client c client) s1)"

text \<open>The context is read a second time; a library call with a NULL context is undefined.\<close>

definition EVP_undeployModules ::
  "'e agent_env_scheme \<Rightarrow> 's agent_state_scheme \<Rightarrow> int \<times> 's agent_state_scheme" where
  "EVP_undeployModules env s =
     (let (status, s1) = EVP_getAgentStatus env s
      in if status = EVP_AGENT_STATUS_INIT env then (EVP_AGAIN env, s1)
         else
           let (ctxt, s2) = get_backdoor_context s1
           in case ctxt of
                None \<Rightarrow> (0, undefined_behaviour s2)
              | Some c \<Rightarrow>
                  (let (_, s3) = evp_lib env c (Call_evp_agent_undeploy_all c) s2
                   in evp_lib env c (Call_evp_agent_empty_deployment_has_completed c) s3))"

section \<open>Native symbols\<close>

definition evp_agent_wasm_native_symbol_add ::
  "'e libc_env_scheme \<Rightarrow> string option \<Rightarrow> nat option \<Rightarrow> u32 \<Rightarrow> 's agent_state_scheme \<Rightarrow>
   int \<times> 's agent_state_scheme" where
  "evp_agent_wasm_native_symbol_add env module_name native_symbols n_native_symbols s =
     (case module_name of
        None \<Rightarrow> (- EINVAL, emit (EVP_AGENT_ERR ''evp-agent.c'' 158 ''module_name is NULL'' []) s)
      | Some name \<Rightarrow>
          (case native_symbols of
             None \<Rightarrow> (- EINVAL, emit (EVP_AGENT_ERR ''evp-agent.c'' 162 ''native_symbols is NULL'' []) s)
           | Some symbols \<Rightarrow>
               (if n_native_symbols = 0 then
                  (- EINVAL, emit (EVP_AGENT_ERR ''evp-agent.c'' 166 ''n_native_symbols is 0'' []) s)
                else
                  let (p, s1) = c_malloc env Alloc_native_symbol_entry s
                  in case p of
                       None \<Rightarrow> (- ENOMEM, emit (EVP_AGENT_ERR ''evp-agent.c'' 172
                          ''failed to allocate memory for native_symbol_entry'' []) s1)
                     | Some b \<Rightarrow>
                         (let entry = \<lparr>ne_block = b, ne_module_name = name, ne_native_symbols = symbols,
                                       ne_n_native_symbols = n_native_symbols\<rparr>;
                              s2 = mutex_lock g_wasm_native_symbols_lock s1;
                              s3 = s2\<lparr>g_wasm_native_symbols := g_wasm_native_symbols s2 @ [entry]\<rparr>
                          in (0, mutex_unlock g_wasm_native_symbols_lock s3)))))"

definition EVP_wasm_runtime_register_natives ::
  "'e libc_env_scheme \<Rightarrow> string option \<Rightarrow> nat option \<Rightarrow> u32 \<Rightarrow> 's agent_state_scheme \<Rightarrow>
   bool \<times> 's agent_state_scheme" where
  "EVP_wasm_runtime_register_natives env module_name native_symbols n_native_symbols s =
     (if g_evp_agent_started s then
        (False, emit (EVP_AGENT_ERR ''evp-agent.c'' 193 ''EVP Agent has already started'' []) s)
      else
        let (ret, s1) = evp_agent_wasm_native_symbol_add env module_name native_symbols n_native_symbols s
        in (ret = 0, s1))"

text \<open>\<open>TAILQ_FOREACH_SAFE\<close> visits the entries the queue has when the loop starts, in order; each is
  unlinked (found by its block) and released.\<close>

fun flush_loop ::
  "'e agent_env_scheme \<Rightarrow> native_symbol_entry list \<Rightarrow> int \<Rightarrow> 's agent_state_scheme \<Rightarrow>
   int \<times> 's agent_state_scheme" where
  "flush_loop env [] ret s = (ret, s)"
| "flush_loop env (entry # entries) ret s =
     (let (ret1, s1) =
            (if ret = 0 then
               let ok = env_wasm_register_natives env (trace s) (ne_module_name entry)
                          (ne_native_symbols entry) (ne_n_native_symbols entry);
                   s' = emit (EVP (Call_wasm_runtime_register_natives (ne_module_name entry)
                          (ne_native_symbols entry) (ne_n_native_symbols entry))) s
               in if \<not> ok then
                    (-1, emit (EVP_AGENT_ERR ''evp-agent.c'' 214 ''Failed to register native symbols'' []) s')
                  else (ret, s')
             else (ret, s));
          s2 = s1\<lparr>g_wasm_native_symbols := filter (\<lambda>e. ne_block e \<noteq> ne_block entry) (g_wasm_native_symbols s1)\<rparr>;
          s3 = c_free (Some (ne_block entry)) s2
      in flush_loop env entries ret1 s3)"

definition evp_agent_flush_wasm_native_symbols ::
  "'e agent_env_scheme \<Rightarrow> 's agent_state_scheme \<Rightarrow> int \<times> 's agent_state_scheme" where
  "evp_agent_flush_wasm_native_symbols env s = flush_loop env (g_wasm_native_symbols s) 0 s"

section \<open>What a callback may do\<close>

text \<open>The event-log handlers keep the proxy cache and everything of the agent.\<close>

definition kept :: "'s notif_state_scheme \<Rightarrow> proxy_cache \<times> 's" where
  "kept s = (g_proxy_cache s, notif_state.more s)"

lemma kept_simps [edc_frame]:
  "kept (emit c s) = kept s" "kept (undefined_behaviour s) = kept s" "kept (s\<lparr>trace := h\<rparr>) = kept s"
  "kept (s\<lparr>g_mqtt_reconnect_cnt := n\<rparr>) = kept s"
  "kept (s\<lparr>g_mqtt_sync_error_recv_buffer_too_small := b\<rparr>) = kept s"
  "kept (s\<lparr>g_mqtt_sync_error_send_buffer_is_full := b\<rparr>) = kept s"
  "kept (s\<lparr>g_mqtt_sync_error_invalid_time := b\<rparr>) = kept s"
  "kept (s\<lparr>g_tcp_timer_error_timeout := b\<rparr>) = kept s"
  by (simp_all add: kept_def emit_def undefined_behaviour_def)

lemma kept_set [edc_frame]: "elog_wf s \<Longrightarrow> kept (snd (SystemSetELog env c v s)) = kept s"
  by (simp add: kept_def SystemSetELog_eq)

lemma kept_check_sys_time [edc_frame]: "kept (snd (check_sys_time env s)) = kept s"
  by (simp add: check_sys_time_def case_prod_beta Let_def edc_frame)

lemma kept_fail_flags [edc_frame]: "kept (mqtt_fail_flags env e s) = kept s"
  by (simp add: mqtt_fail_flags_def mqtt_sync_fail_reason_eq Let_def edc_frame)

lemma mqtt_fail_frame:
  assumes "elog_wf s"
  shows "elog_wf (snd (elog_handler_mqtt_sync_fail env e s)) \<and> kept (snd (elog_handler_mqtt_sync_fail env e s)) = kept s"
proof (cases "\<exists>m. elog_map s ELOG_EVP_MQTT_STATUS = Some m \<and> m \<noteq> ELOG_ERR")
  case True
  then obtain m where m: "elog_map s ELOG_EVP_MQTT_STATUS = Some m" "m \<noteq> ELOG_ERR" by blast
  show ?thesis
    unfolding mqtt_sync_fail_eq [OF assms m]
    using assms mqtt_fail_flags_eq(2) [of env e s]
    by (simp add: case_prod_beta Let_def edc_frame elog.put_wf)
next
  case False
  then show ?thesis
    using assms by (simp add: elog_handler_mqtt_sync_fail_def get_elog_calls edc_frame split: option.splits)
qed

lemma mqtt_success_frame:
  assumes "elog_wf s"
  shows "elog_wf (snd (elog_handler_mqtt_sync_success env s)) \<and> kept (snd (elog_handler_mqtt_sync_success env s)) = kept s"
  using assms by (simp add: elog_handler_mqtt_sync_success_def case_prod_beta Let_def get_elog_calls
      edc_frame elog.put_wf del: if_split)

lemma elog_notify_frame:
  assumes "elog_wf s"
  shows "elog_wf (elog_notify env n s) \<and> kept (elog_notify env n s) = kept s"
proof (cases n)
  case (Blob_result e)
  then show ?thesis
    using assms by (simp add: elog_notify_def elog_handler_blob_result_def elog_handler_blob_success_def
        elog_handler_blob_http_error_def elog_handler_blob_other_error_def case_prod_beta Let_def
        get_elog_calls elog.put_wf edc_frame split: option.splits blob_result_kind.splits)
next
  case (Mqtt_sync e)
  let ?s = "if e = None then undefined_behaviour s else s"
  have "elog_wf ?s" "kept ?s = kept s" using assms by (simp_all add: edc_frame)
  with Mqtt_sync mqtt_success_frame [of ?s env] mqtt_fail_frame [of ?s env e] show ?thesis
    by (simp add: elog_notify_def elog_handler_mqtt_sync_result_def event_starts_with_eq
        case_prod_beta Let_def edc_frame)
next
  case (Network_error e)
  then show ?thesis
    using assms by (cases e) (simp_all add: elog_notify_def elog_handler_network_error_def
        event_starts_with_eq case_prod_beta Let_def get_elog_calls elog.put_wf edc_frame)
qed

text \<open>The log handler is quiet when the text of the message fits an \<open>int\<close>.\<close>

definition dlog_fits :: "string \<Rightarrow> int \<Rightarrow> string \<Rightarrow> fmt_arg list \<Rightarrow> bool" where
  "dlog_fits file line fmt ap \<longleftrightarrow>
     vsnprintf_ret ''[%s:%d] '' [FStr (EVP_FILE_NAME file), FInt line] + vsnprintf_ret fmt ap + 1 \<le> INT_MAX"

lemma chunk_calls_neutral: "list_all neutral (chunk_calls lvl filename line buf i)"
  unfolding list_all_iff by (auto dest!: chunk_calls_form simp: dlog_chunk_call_def)

lemma dlog_handler_quiet:
  assumes "heap_wf s" "dlog_fits file line fmt ap"
  shows "quiet neutral s (evp_agent_dlog_handler env lvl file line fmt ap s)"
proof -
  have chunks: "allocs neutral B s (dlog_chunks l f n buf i t)" if "allocs neutral B s t" for B l f n buf i t
  proof (rule allocs_quiet [OF that])
    show "quiet neutral t (dlog_chunks l f n buf i t)"
      by (rule allocsI [where cs = "chunk_calls l f n buf i" and n = 0])
        (simp_all add: dlog_chunks_eq chunk_calls_neutral)
  qed
  let ?n = "vsnprintf_ret ''[%s:%d] '' [FStr (EVP_FILE_NAME file), FInt line] + vsnprintf_ret fmt ap + 1"
  let ?size = "nat (if ?n > LOG_BUFFER_SIZE then LOG_BUFFER_SIZE else ?n)"
  obtain p t where m: "c_malloc env (Alloc_log_buf ?size) s = (p, t)" by fastforce
  have a: "allocs neutral (set_option p) s t" using m by (rule allocs_malloc) simp
  have tr: "neutral (dlog_truncated_call l f i n)" for l f i n by (simp add: dlog_truncated_call_def)
  have fits: "\<not> INT_MAX < ?n" using assms(2) by (simp add: dlog_fits_def)
  show ?thesis
    using a fits m assms(1) tr
    by (auto simp: evp_agent_dlog_handler_def Let_def intro!: quiet_emit allocs_emit allocs_free_all chunks
        split: option.splits)
qed

section \<open>The contract of the agent library\<close>

text \<open>
  The documented behaviour on which the program relies: events are strings, not NULL, and log
  messages have a length that fits an \<open>int\<close>. A well-formed callback is harmless: it keeps the
  heap, the proxy cache and the state of the agent, and calls neither the library nor the
  watchdog.
\<close>

fun callback_ok :: "agent_callback \<Rightarrow> bool" where
  "callback_ok (Callback_dlog lvl file line fmt ap) = dlog_fits file line fmt ap"
| "callback_ok (Callback_out_of_memory file line func sz) = True"
| "callback_ok (Callback_elog n) = (n \<noteq> Mqtt_sync None \<and> n \<noteq> Network_error None)"
| "callback_ok (Callback_agent_status a) = (\<forall>x. a = Some x \<longrightarrow> NUL \<notin> set x)"
| "callback_ok (Callback_config key n) = True"
| "callback_ok (Callback_config_is_pk_file key) = True"

definition agent_contract :: "'e agent_env_scheme \<Rightarrow> bool" where
  "agent_contract env \<longleftrightarrow> esf_contract env \<and> zeroize_contract env \<and> clock_contract env \<and>
     (\<forall>h c. list_all callback_ok (snd (env_evp env h c)))"

definition local_step :: "'s notif_state_scheme \<Rightarrow> 's notif_state_scheme \<Rightarrow> bool" where
  "local_step s s' \<longleftrightarrow> live s' = live s \<and> ub s' = ub s \<and> fresh s \<le> fresh s' \<and>
     (\<exists>cs. trace s' = trace s @ cs \<and> balanced cs \<and> list_all local_call cs) \<and>
     elog_wf s' = elog_wf s \<and> kept s' = kept s"

lemma local_step_refl: "local_step s s"
  by (auto simp: local_step_def intro: exI [of _ "[]"])

lemma local_step_trans: "local_step s t \<Longrightarrow> local_step t u \<Longrightarrow> local_step s u"
  by (fastforce simp: local_step_def intro: balanced_append)

lemma local_step_heap_wf: "local_step s t \<Longrightarrow> heap_wf s \<Longrightarrow> heap_wf t"
  by (auto simp: local_step_def heap_wf_def)

lemma local_step_emit: "\<not> lock_call c \<Longrightarrow> local_call c \<Longrightarrow> local_step s (emit c s)"
  by (auto simp: local_step_def edc_frame balanced_other)

lemma allocs_kept: "allocs P B s t \<Longrightarrow> kept t = kept s"
  by (auto simp: kept_def elim!: allocsE)

lemma quiet_local_step:
  assumes "quiet P s t" "\<And>c. P c \<Longrightarrow> \<not> lock_call c \<and> local_call c"
  shows "local_step s t"
proof -
  obtain cs where cs: "trace t = trace s @ cs" "list_all P cs" using allocs_facts(6) [OF assms(1)] by blast
  from cs(2) have "balanced cs \<and> list_all local_call cs"
    by (induction cs) (simp_all add: assms(2) balanced_other)
  with cs allocs_facts [OF assms(1)] allocs_log_fields(4) [OF assms(1)] allocs_kept [OF assms(1)]
  show ?thesis by (auto simp: local_step_def)
qed

lemma neutral_local: "neutral c \<Longrightarrow> local_call c"
  by (cases c rule: local_call.cases) auto

lemma led_local: "led_call c \<Longrightarrow> local_call c"
  by (cases c rule: led_call.cases) (auto simp: neutral_local)

lemma neutral_local_step: "quiet neutral s t \<Longrightarrow> local_step s t"
  by (rule quiet_local_step [where P = neutral]) (simp_all add: neutral_not_lock neutral_local)

lemma agent_status_local_step:
  assumes "esf_contract env" "heap_wf s" "\<forall>x. a = Some x \<longrightarrow> NUL \<notin> set x"
  shows "local_step s (snd (agent_status_handler env a s))"
proof -
  note dlog_mono = allocs_mono [OF SystemDlog_quiet [OF assms(2)] neutral_led_call]
  have q: "quiet led_call s (snd (agent_status_handler env a s))"
  proof (cases a)
    case None
    then show ?thesis
      by (auto simp: agent_status_handler_eq intro!: dlog_mono dlog_formats)
  next
    case (Some x)
    consider "x \<notin> {''connected'', ''disconnected''}" | "x = ''connected''" "fst (is_enrollment_mode env s)"
      | c where "x = status_name c" "c \<longrightarrow> \<not> fst (is_enrollment_mode env s)"
      by (auto simp: status_name_def) metis+
    then show ?thesis
    proof cases
      case 1
      with Some assms(3) show ?thesis
        by (auto simp: agent_status_handler_eq intro!: dlog_mono dlog_formats)
    next
      case 2
      with Some is_enrollment_mode_quiet [OF assms(1,2)] show ?thesis
        by (auto simp: agent_status_handler_eq intro: allocs_mono [OF _ neutral_led_call])
    next
      case 3
      with Some agent_status_sets_leds [OF assms(1,2), of c] show ?thesis by (auto simp: sets_leds_def)
    qed
  qed
  then show ?thesis by (rule quiet_local_step [where P = led_call]) (simp add: led_call_not_lock led_local)
qed

lemma config_uses_quiet:
  assumes "zeroize_contract env" "cfg_size cfg \<le> length (cfg_value cfg)"
    and "config_uses env n cfg s = (cfg', s')"
  shows "quiet neutral s s' \<and> cfg_block cfg' = cfg_block cfg \<and> cfg_value_block cfg' = cfg_value_block cfg"
  using assms(2,3)
proof (induction n arbitrary: cfg s)
  case 0
  then show ?case by simp
next
  case (Suc n)
  let ?s = "emit (ESF (Call_mbedtls_platform_zeroize (cfg_size cfg))) s"
  let ?c = "cfg\<lparr>cfg_value := replicate (cfg_size cfg) NUL @ drop (cfg_size cfg) (cfg_value cfg)\<rparr>"
  have "config_uses env n ?c ?s = (cfg', s')"
    using Suc.prems assms(1)
    by (simp add: load_config_impl_def unload_config_impl_def zeroize_contract_def Let_def)
  from Suc.IH [OF _ this] Suc.prems(1) have "quiet neutral ?s s'" "cfg_block cfg' = cfg_block cfg"
    "cfg_value_block cfg' = cfg_value_block cfg" by simp_all
  moreover have "quiet neutral s ?s" by (rule quiet_emit) simp
  ultimately show ?case using quiet_trans [of neutral s ?s s'] by simp
qed

lemma config_session_quiet:
  assumes "esf_contract env" "zeroize_contract env" "heap_wf s"
  shows "quiet neutral s (config_session env key n s)"
proof -
  have inv: "esf_contract env \<and> heap_wf s" using assms by blast
  obtain c s1 where g: "get_config_impl env key s = (c, s1)" by fastforce
  show ?thesis
  proof (cases c)
    case None
    with g cfg.read_None [of env, OF inv] show ?thesis by (simp add: config_session_def)
  next
    case (Some cfg)
    obtain cfg1 s2 where u: "config_uses env n cfg s1 = (cfg1, s2)" by fastforce
    note g' = g [unfolded Some]
    note q = config_uses_quiet [OF assms(2) cfg.read_size(1) [of env, OF inv g'] u]
    with cfg.release_after [of env, OF inv g'] g' u show ?thesis by (simp add: config_session_def)
  qed
qed

lemma agent_callback_local_step:
  assumes "esf_contract env" "clock_contract env" "heap_wf s" "elog_wf s" "callback_ok cb"
    and "zeroize_contract env"
  shows "local_step s (agent_callback env cb s)"
proof (cases cb)
  case (Callback_dlog lvl f l fmt ap)
  with assms show ?thesis by (simp add: agent_callback_def neutral_local_step dlog_handler_quiet)
next
  case (Callback_out_of_memory f l func sz)
  then show ?thesis
    by (auto simp: agent_callback_def out_of_memory_def intro!: local_step_trans [OF local_step_emit local_step_emit])
next
  case (Callback_elog n)
  have "calls_out s (elog_notify env n s)"
    using assms Callback_elog blob_result_calls_out [OF assms(4), of env] network_error_calls_out [OF assms(4)]
      mqtt_result_calls_out [OF assms(4,2)]
    by (cases n) (simp_all add: elog_notify_def)
  with elog_notify_frame [OF assms(4), of env n] assms(4) Callback_elog show ?thesis
    by (auto simp: agent_callback_def local_step_def calls_out_def)
next
  case (Callback_agent_status a)
  with assms agent_status_local_step [OF assms(1,3), of a] show ?thesis by (simp add: agent_callback_def)
next
  case (Callback_config key n)
  with neutral_local_step [OF config_session_quiet [OF assms(1,6,3), of key n]] show ?thesis
    by (simp add: agent_callback_def)
next
  case (Callback_config_is_pk_file key)
  then show ?thesis by (simp add: agent_callback_def local_step_refl)
qed

lemma callbacks_local_step:
  assumes "esf_contract env" "clock_contract env" "heap_wf s" "elog_wf s" "list_all callback_ok cbs"
    and "zeroize_contract env"
  shows "local_step s (fold (agent_callback env) cbs s)"
  using assms(3-5)
proof (induction cbs arbitrary: s)
  case Nil
  then show ?case by (simp add: local_step_refl)
next
  case (Cons cb cbs)
  let ?t = "agent_callback env cb s"
  have t: "local_step s ?t" using Cons.prems by (intro agent_callback_local_step assms(1,2,6)) simp_all
  moreover have "elog_wf ?t" using t Cons.prems(2) by (simp add: local_step_def)
  ultimately show ?case
    using Cons.IH [of ?t] Cons.prems local_step_heap_wf [OF t] local_step_trans [OF t] by simp
qed

text \<open>A library call: its own entry in the history, then harmless callbacks.\<close>

lemma evp_lib_step:
  assumes "agent_contract env" "heap_wf s" "elog_wf s" "ctxt \<in> agents s"
  shows "local_step (emit (EVP call) s) (snd (evp_lib env ctxt call s))"
    and "fst (evp_lib env ctxt call s) = fst (env_evp env (trace s) call)"
proof -
  have "heap_wf (emit (EVP call) s)" "elog_wf (emit (EVP call) s)"
    using assms by (simp_all add: heap_wf_def)
  then show "local_step (emit (EVP call) s) (snd (evp_lib env ctxt call s))"
    using assms callbacks_local_step [of env "emit (EVP call) s" "snd (env_evp env (trace s) call)"]
    by (simp add: evp_lib_def agent_contract_def case_prod_beta Let_def)
  show "fst (evp_lib env ctxt call s) = fst (env_evp env (trace s) call)"
    by (simp add: evp_lib_def case_prod_beta Let_def)
qed

section \<open>The queue of native symbols\<close>

type_synonym native_key = "string \<times> nat \<times> u32"

definition entry_key :: "native_symbol_entry \<Rightarrow> native_key" where
  "entry_key e = (ne_module_name e, ne_native_symbols e, ne_n_native_symbols e)"

definition queue_blocks :: "'s agent_state_scheme \<Rightarrow> nat set" where
  "queue_blocks s = ne_block ` set (g_wasm_native_symbols s)"

definition queue_wf :: "'s agent_state_scheme \<Rightarrow> bool" where
  "queue_wf s \<longleftrightarrow> heap_wf s \<and> distinct (map ne_block (g_wasm_native_symbols s)) \<and> queue_blocks s \<subseteq> live s"

text \<open>The registrations with the WASM runtime that a history holds.\<close>

fun native_regs :: "history \<Rightarrow> native_key list" where
  "native_regs [] = []"
| "native_regs (EVP (Call_wasm_runtime_register_natives m p n) # cs) = (m, p, n) # native_regs cs"
| "native_regs (_ # cs) = native_regs cs"

lemma native_regs_append [simp]: "native_regs (xs @ ys) = native_regs xs @ native_regs ys"
  by (induction xs rule: native_regs.induct) auto

lemma native_regs_log [simp]: "native_regs [EVP_AGENT_ERR f l m a] = []"
  by (simp add: EVP_AGENT_ERR_def)

text \<open>Everything of the agent but the queue.\<close>

definition agent_rest ::
  "'s agent_state_scheme \<Rightarrow> bool \<times> proxy_cache \<times> nat option \<times> bool \<times> bool \<times> int \<times> nat set" where
  "agent_rest s = (elog_wf s, g_proxy_cache s, g_evp_agent_ctxt s, g_evp_agent_signalled s,
     g_evp_agent_started s, g_evp_agent_ret s, agents s)"

lemma agent_rest_simps [edc_frame]:
  "agent_rest (emit c s) = agent_rest s" "agent_rest (undefined_behaviour s) = agent_rest s"
  "agent_rest (s\<lparr>g_wasm_native_symbols := q\<rparr>) = agent_rest s" "agent_rest (s\<lparr>live := l\<rparr>) = agent_rest s"
  "agent_rest (s\<lparr>fresh := n\<rparr>) = agent_rest s" "agent_rest (s\<lparr>trace := h\<rparr>) = agent_rest s"
  by (simp_all add: agent_rest_def emit_def undefined_behaviour_def elog_wf_def)

lemma agent_rest_free [edc_frame]: "agent_rest (c_free p s) = agent_rest s"
  by (simp add: c_free_def edc_frame split: option.split)

lemma queue_simps [edc_frame]:
  "g_wasm_native_symbols (emit c s) = g_wasm_native_symbols s"
  "g_wasm_native_symbols (c_free p s) = g_wasm_native_symbols s"
  by (simp_all add: emit_def c_free_def undefined_behaviour_def split: option.split)

lemma local_step_rest:
  assumes "local_step s t"
  shows "agent_rest t = agent_rest s" "g_wasm_native_symbols t = g_wasm_native_symbols s"
proof -
  have "notif_state.more t = notif_state.more s" "g_proxy_cache t = g_proxy_cache s" "elog_wf t = elog_wf s"
    using assms by (simp_all add: local_step_def kept_def)
  then show "agent_rest t = agent_rest s" "g_wasm_native_symbols t = g_wasm_native_symbols s"
    by (cases s; cases t; simp add: agent_rest_def)+
qed

text \<open>One round of the flush loop.\<close>

definition flush_entry ::
  "'e agent_env_scheme \<Rightarrow> native_symbol_entry \<Rightarrow> int \<Rightarrow> 's agent_state_scheme \<Rightarrow> int \<times> 's agent_state_scheme" where
  "flush_entry env e ret s =
     (let ok = env_wasm_register_natives env (trace s) (ne_module_name e) (ne_native_symbols e) (ne_n_native_symbols e);
          c = EVP (Call_wasm_runtime_register_natives (ne_module_name e) (ne_native_symbols e) (ne_n_native_symbols e));
          err = EVP_AGENT_ERR ''evp-agent.c'' 214 ''Failed to register native symbols'' [];
          (ret1, s1) = (if ret = 0 then if ok then (0, emit c s) else (-1, emit err (emit c s)) else (ret, s))
      in (ret1, c_free (Some (ne_block e)) (s1\<lparr>g_wasm_native_symbols :=
            filter (\<lambda>x. ne_block x \<noteq> ne_block e) (g_wasm_native_symbols s1)\<rparr>)))"

lemma flush_loop_Cons:
  "flush_loop env (e # es) ret s = flush_loop env es (fst (flush_entry env e ret s)) (snd (flush_entry env e ret s))"
  by (simp add: flush_entry_def Let_def)

lemma filter_other_blocks: "ne_block e \<notin> ne_block ` set r \<Longrightarrow> filter (\<lambda>x. ne_block x \<noteq> ne_block e) r = r"
  by (rule filter_True) (metis image_eqI)

lemma flush_entry_state:
  assumes "g_wasm_native_symbols s = e # es" "distinct (map ne_block (e # es))" "ne_block e \<in> live s"
  shows "g_wasm_native_symbols (snd (flush_entry env e ret s)) = es"
    "live (snd (flush_entry env e ret s)) = live s - {ne_block e}" "ub (snd (flush_entry env e ret s)) = ub s"
    "fresh (snd (flush_entry env e ret s)) = fresh s" "agent_rest (snd (flush_entry env e ret s)) = agent_rest s"
proof -
  have "filter (\<lambda>x. ne_block x \<noteq> ne_block e) es = es"
    using assms(2) by (intro filter_other_blocks) simp
  with assms show "g_wasm_native_symbols (snd (flush_entry env e ret s)) = es"
    "live (snd (flush_entry env e ret s)) = live s - {ne_block e}" "ub (snd (flush_entry env e ret s)) = ub s"
    "fresh (snd (flush_entry env e ret s)) = fresh s" "agent_rest (snd (flush_entry env e ret s)) = agent_rest s"
    by (simp_all add: flush_entry_def Let_def edc_frame)
qed

lemma flush_loop_state:
  assumes "g_wasm_native_symbols s = es" "distinct (map ne_block es)" "ne_block ` set es \<subseteq> live s"
  shows "g_wasm_native_symbols (snd (flush_loop env es ret s)) = [] \<and>
      live (snd (flush_loop env es ret s)) = live s - ne_block ` set es \<and>
      ub (snd (flush_loop env es ret s)) = ub s \<and> fresh (snd (flush_loop env es ret s)) = fresh s \<and>
      agent_rest (snd (flush_loop env es ret s)) = agent_rest s"
  using assms
proof (induction es arbitrary: ret s)
  case Nil
  then show ?case by simp
next
  case (Cons e es)
  let ?t = "snd (flush_entry env e ret s)"
  have l: "ne_block e \<in> live s" using Cons.prems(3) by simp
  note t = flush_entry_state [OF Cons.prems(1,2) l, of env ret]
  have d: "distinct (map ne_block es)" "ne_block e \<notin> ne_block ` set es" using Cons.prems(2) by auto
  have "ne_block ` set es \<subseteq> live ?t"
    using Cons.prems(3) d(2) by (simp add: t(2) subset_Diff_insert)
  note IH = Cons.IH [OF t(1) d(1) this, of "fst (flush_entry env e ret s)"]
  have "live s - {ne_block e} - ne_block ` set es = live s - ne_block ` set (e # es)" by auto
  with IH show ?case by (simp only: flush_loop_Cons t(2-5))
qed

text \<open>The calls of a round: at most one registration and its error message, and the release.\<close>

definition flush_call :: "ext_call \<Rightarrow> bool" where
  "flush_call c \<longleftrightarrow> local_call c \<or> native_regs [c] \<noteq> []"

definition refused :: "'e agent_env_scheme \<Rightarrow> native_key \<Rightarrow> bool" where
  "refused env k \<longleftrightarrow> (\<exists>h. \<not> env_wasm_register_natives env h (fst k) (fst (snd k)) (snd (snd k)))"

lemma flush_entry_calls:
  "\<exists>cs. trace (snd (flush_entry env e ret s)) = trace s @ cs \<and> balanced cs \<and> list_all flush_call cs \<and>
     native_regs cs = (if ret = 0 then [entry_key e] else []) \<and>
     (ret \<noteq> 0 \<longrightarrow> fst (flush_entry env e ret s) = ret) \<and>
     (ret = 0 \<longrightarrow> fst (flush_entry env e ret s) = 0 \<or>
       fst (flush_entry env e ret s) = -1 \<and> refused env (entry_key e))"
  by (auto simp: flush_entry_def Let_def balanced_other lock_call_def flush_call_def entry_key_def refused_def
      EVP_AGENT_ERR_def)

text \<open>Flushing takes the entries in order; once a registration fails the rest is only released.\<close>

lemma flush_loop_calls:
  "\<exists>cs rest. trace (snd (flush_loop env es ret s)) = trace s @ cs \<and> balanced cs \<and> list_all flush_call cs \<and>
      map entry_key es = native_regs cs @ rest \<and>
      (ret \<noteq> 0 \<longrightarrow> native_regs cs = [] \<and> fst (flush_loop env es ret s) = ret) \<and>
      (ret = 0 \<longrightarrow> fst (flush_loop env es ret s) = 0 \<and> rest = [] \<or>
         fst (flush_loop env es ret s) = -1 \<and> native_regs cs \<noteq> [] \<and>
         refused env (last (native_regs cs)))"
proof (induction es arbitrary: ret s)
  case Nil
  show ?case by (auto intro!: exI [of _ "[]"])
next
  case (Cons e es)
  obtain cs where cs: "trace (snd (flush_entry env e ret s)) = trace s @ cs" "balanced cs" "list_all flush_call cs"
     "native_regs cs = (if ret = 0 then [entry_key e] else [])"
     "ret \<noteq> 0 \<longrightarrow> fst (flush_entry env e ret s) = ret"
     "ret = 0 \<longrightarrow> fst (flush_entry env e ret s) = 0 \<or>
       fst (flush_entry env e ret s) = -1 \<and> refused env (entry_key e)"
    using flush_entry_calls [of env e ret s] by blast
  let ?r = "fst (flush_entry env e ret s)" and ?t = "snd (flush_entry env e ret s)"
  obtain ds rest where ds: "trace (snd (flush_loop env es ?r ?t)) = trace ?t @ ds" "balanced ds"
      "list_all flush_call ds" "map entry_key es = native_regs ds @ rest"
      "?r \<noteq> 0 \<longrightarrow> native_regs ds = [] \<and> fst (flush_loop env es ?r ?t) = ?r"
      "?r = 0 \<longrightarrow> fst (flush_loop env es ?r ?t) = 0 \<and> rest = [] \<or>
         fst (flush_loop env es ?r ?t) = -1 \<and> native_regs ds \<noteq> [] \<and>
         refused env (last (native_regs ds))"
    using Cons.IH [of ?r ?t] by blast
  show ?case
  proof (cases "ret = 0")
    case True
    have "map entry_key (e # es) = native_regs (cs @ ds) @ rest" using cs(4) ds(4) True by simp
    moreover have "fst (flush_loop env (e # es) ret s) = 0 \<and> rest = [] \<or>
         fst (flush_loop env (e # es) ret s) = -1 \<and> native_regs (cs @ ds) \<noteq> [] \<and>
         refused env (last (native_regs (cs @ ds)))"
      using cs(4,6) ds(5,6) True unfolding flush_loop_Cons by auto
    ultimately show ?thesis
      using cs(1-3) ds(1-3) True balanced_append [OF cs(2) ds(2)] unfolding flush_loop_Cons
      by (intro exI [of _ "cs @ ds"] exI [of _ rest]) auto
  next
    case False
    with cs ds show ?thesis
      unfolding flush_loop_Cons
      by (intro exI [of _ "cs @ ds"] exI [of _ "map entry_key (e # es)"]) (auto simp: balanced_append)
  qed
qed

section \<open>First in, first out\<close>

text \<open>
  The contract between those who register symbols and the thread that flushes them: an accepted
  key goes to the end of the queue, a refused one changes nothing, and a flush visits the queue
  from the front and leaves it empty.
\<close>

locale symbol_queue =
  fixes contents :: "'s \<Rightarrow> 'k list" and inv :: "'s \<Rightarrow> bool"
    and add :: "'k \<Rightarrow> 's \<Rightarrow> bool \<times> 's" and flush :: "'s \<Rightarrow> int \<times> 's" and visited :: "'s \<Rightarrow> 'k list"
  assumes add_contents: "inv s \<Longrightarrow> contents (snd (add k s)) = contents s @ (if fst (add k s) then [k] else [])"
    and add_inv: "inv s \<Longrightarrow> inv (snd (add k s))"
    and add_visited: "inv s \<Longrightarrow> visited (snd (add k s)) = visited s"
    and flush_contents: "inv s \<Longrightarrow> contents (snd (flush s)) = []"
    and flush_prefix: "inv s \<Longrightarrow> \<exists>ks rest. contents s = ks @ rest \<and> visited (snd (flush s)) = visited s @ ks"
    and flush_all: "inv s \<Longrightarrow> fst (flush s) = 0 \<Longrightarrow> visited (snd (flush s)) = visited s @ contents s"
begin

lemma adds_contents:
  assumes "inv s"
  shows "inv (fold (\<lambda>k t. snd (add k t)) ks s) \<and>
    (\<exists>as. subseq as ks \<and> contents (fold (\<lambda>k t. snd (add k t)) ks s) = contents s @ as) \<and>
    visited (fold (\<lambda>k t. snd (add k t)) ks s) = visited s"
  using assms
proof (induction ks arbitrary: s)
  case Nil
  then show ?case by simp
next
  case (Cons k ks)
  let ?t = "snd (add k s)"
  have t: "inv ?t" "contents ?t = contents s @ (if fst (add k s) then [k] else [])" "visited ?t = visited s"
    using Cons.prems by (simp_all add: add_inv add_contents add_visited)
  obtain as where "subseq as ks" "contents (fold (\<lambda>k t. snd (add k t)) ks ?t) = contents ?t @ as"
    using Cons.IH [OF t(1)] by blast
  then have "subseq ((if fst (add k s) then [k] else []) @ as) (k # ks) \<and>
      contents (fold (\<lambda>k t. snd (add k t)) ks ?t) = contents s @ ((if fst (add k s) then [k] else []) @ as)"
    using t(2) by (auto intro: list_emb_Cons)
  with Cons.IH [OF t(1)] t(3) show ?case by auto
qed

lemma adds_accepted:
  assumes "inv s" "\<And>k t. k \<in> set ks \<Longrightarrow> inv t \<Longrightarrow> P t \<Longrightarrow> fst (add k t) \<and> P (snd (add k t))" "P s"
  shows "contents (fold (\<lambda>k t. snd (add k t)) ks s) = contents s @ ks"
  using assms
proof (induction ks arbitrary: s)
  case Nil
  then show ?case by simp
next
  case (Cons k ks)
  from Cons.prems(1,3) Cons.prems(2) [of k s] have "fst (add k s)" "P (snd (add k s))" by auto
  with Cons.IH [OF add_inv [OF Cons.prems(1)]] Cons.prems show ?case by (simp add: add_contents)
qed

text \<open>A successful flush hands over, in their order, all that was accepted.\<close>

lemma flush_after_adds:
  assumes "inv s" "contents s = []" "fst (flush (fold (\<lambda>k t. snd (add k t)) ks s)) = 0"
  shows "\<exists>as. subseq as ks \<and>
    visited (snd (flush (fold (\<lambda>k t. snd (add k t)) ks s))) = visited s @ as"
  using adds_contents [OF assms(1), of ks] flush_all [OF _ assms(3)] assms(2) by force

end

definition register_key ::
  "'e libc_env_scheme \<Rightarrow> native_key \<Rightarrow> 's agent_state_scheme \<Rightarrow> bool \<times> 's agent_state_scheme" where
  "register_key env k s = EVP_wasm_runtime_register_natives env (Some (fst k)) (Some (fst (snd k))) (snd (snd k)) s"

definition queue_keys :: "'s agent_state_scheme \<Rightarrow> native_key list" where
  "queue_keys s = map entry_key (g_wasm_native_symbols s)"

definition native_visited :: "'s io_state_scheme \<Rightarrow> native_key list" where
  "native_visited s = native_regs (trace s)"

text \<open>What a registration does, whatever its arguments.\<close>

lemma native_symbol_add_refused:
  assumes "m = None \<or> p = None \<or> n = 0 \<or> \<not> env_malloc env (trace s) Alloc_native_symbol_entry"
  shows "\<exists>cs. evp_agent_wasm_native_symbol_add env m p n s =
      (if m = None \<or> p = None \<or> n = 0 then - EINVAL else - ENOMEM, s\<lparr>trace := trace s @ cs\<rparr>) \<and>
    balanced cs \<and> native_regs cs = []"
  using assms
  by (auto simp: evp_agent_wasm_native_symbol_add_def Let_def c_malloc_def emit_def balanced_other lock_call_def
      EVP_AGENT_ERR_def split: option.splits)

lemma native_symbol_add_accepted:
  assumes "n \<noteq> 0" "env_malloc env (trace s) Alloc_native_symbol_entry"
  shows "evp_agent_wasm_native_symbol_add env (Some m) (Some p) n s =
    (0, s\<lparr>trace := trace s @ [OS (Call_malloc Alloc_native_symbol_entry),
            OS (Call_mutex_lock g_wasm_native_symbols_lock), OS (Call_mutex_unlock g_wasm_native_symbols_lock)],
          live := insert (fresh s) (live s), fresh := Suc (fresh s),
          g_wasm_native_symbols := g_wasm_native_symbols s @
            [\<lparr>ne_block = fresh s, ne_module_name = m, ne_native_symbols = p, ne_n_native_symbols = n\<rparr>]\<rparr>)"
  using assms by (simp add: evp_agent_wasm_native_symbol_add_def Let_def c_malloc_def emit_def mutex_lock_def
      mutex_unlock_def)

lemma queue_wf_append:
  assumes "queue_wf s"
  shows "queue_wf (s\<lparr>trace := h, live := insert (fresh s) (live s), fresh := Suc (fresh s),
          g_wasm_native_symbols := g_wasm_native_symbols s @ [e\<lparr>ne_block := fresh s\<rparr>]\<rparr>)"
  using assms by (auto simp: queue_wf_def queue_blocks_def heap_wf_def less_Suc_eq)

lemma register_key_cases:
  fixes s :: "'s agent_state_scheme"
  assumes "queue_wf s"
  shows "queue_wf (snd (register_key env k s)) \<and> native_visited (snd (register_key env k s)) = native_visited s \<and>
    queue_keys (snd (register_key env k s)) = queue_keys s @ (if fst (register_key env k s) then [k] else []) \<and>
    (fst (register_key env k s) \<longleftrightarrow> \<not> g_evp_agent_started s \<and> snd (snd k) \<noteq> 0 \<and>
       env_malloc env (trace s) Alloc_native_symbol_entry) \<and>
    agent_rest (snd (register_key env k s)) = agent_rest s"
proof -
  have wf: "queue_wf (s\<lparr>trace := h\<rparr>) = queue_wf s" for h
    by (simp add: queue_wf_def queue_blocks_def heap_wf_def)
  obtain m p n where k: "k = (m, p, n)" by (cases k)
  consider "g_evp_agent_started s"
    | "\<not> g_evp_agent_started s" "n = 0 \<or> \<not> env_malloc env (trace s) Alloc_native_symbol_entry"
    | "\<not> g_evp_agent_started s" "n \<noteq> 0" "env_malloc env (trace s) Alloc_native_symbol_entry" by blast
  then show ?thesis
  proof cases
    case 1
    with assms k wf show ?thesis
      by (simp add: register_key_def EVP_wasm_runtime_register_natives_def emit_def queue_keys_def
          native_visited_def agent_rest_def elog_wf_def)
  next
    case 2
    then obtain cs where "evp_agent_wasm_native_symbol_add env (Some m) (Some p) n s =
        (if n = 0 then - EINVAL else - ENOMEM, s\<lparr>trace := trace s @ cs\<rparr>)" "native_regs cs = []"
      using native_symbol_add_refused [of "Some m" "Some p" n env s] by auto
    with 2 assms k wf show ?thesis
      by (auto simp: register_key_def EVP_wasm_runtime_register_natives_def queue_keys_def native_visited_def edc_frame)
  next
    case 3
    with queue_wf_append [OF assms, where e = "\<lparr>ne_block = fresh s, ne_module_name = m, ne_native_symbols = p,
        ne_n_native_symbols = n\<rparr>"] k show ?thesis
      by (simp add: register_key_def EVP_wasm_runtime_register_natives_def native_symbol_add_accepted
          queue_keys_def native_visited_def entry_key_def agent_rest_def elog_wf_def)
  qed
qed

interpretation nq: symbol_queue queue_keys queue_wf "register_key env" "evp_agent_flush_wasm_native_symbols env'"
  native_visited for env env'
proof (unfold_locales, goal_cases)
  case (1 s k)
  then show ?case using register_key_cases by blast
next
  case (2 s k)
  then show ?case using register_key_cases by blast
next
  case (3 s k)
  then show ?case using register_key_cases by blast
next
  case (4 s)
  then show ?case
    using flush_loop_state [of s "g_wasm_native_symbols s" env' 0]
    by (simp add: evp_agent_flush_wasm_native_symbols_def queue_wf_def queue_blocks_def queue_keys_def)
next
  case (5 s)
  then show ?case
    using flush_loop_calls [of env' "g_wasm_native_symbols s" 0 s]
    by (auto simp: evp_agent_flush_wasm_native_symbols_def native_visited_def queue_keys_def)
next
  case (6 s)
  then show ?case
    using flush_loop_calls [of env' "g_wasm_native_symbols s" 0 s]
    by (auto simp: evp_agent_flush_wasm_native_symbols_def native_visited_def queue_keys_def)
qed

lemma register_key_heap:
  assumes "queue_wf s"
  shows "live (snd (register_key env k s)) - queue_blocks (snd (register_key env k s)) = live s - queue_blocks s \<and>
    ub (snd (register_key env k s)) = ub s"
proof -
  obtain m p n where k: "k = (m, p, n)" by (cases k)
  have fresh: "fresh s \<notin> live s" "fresh s \<notin> queue_blocks s"
    using assms heap_wf_fresh [of s] by (auto simp: queue_wf_def)
  show ?thesis
  proof (cases "\<not> g_evp_agent_started s \<and> n \<noteq> 0 \<and> env_malloc env (trace s) Alloc_native_symbol_entry")
    case True
    with k fresh show ?thesis
      by (auto simp: register_key_def EVP_wasm_runtime_register_natives_def native_symbol_add_accepted
          queue_blocks_def)
  next
    case False
    show ?thesis
    proof (cases "g_evp_agent_started s")
      case True
      then show ?thesis
        by (simp add: register_key_def EVP_wasm_runtime_register_natives_def queue_blocks_def edc_frame)
    next
      case not: False
      with False obtain cs where "evp_agent_wasm_native_symbol_add env (Some m) (Some p) n s =
          (if n = 0 then - EINVAL else - ENOMEM, s\<lparr>trace := trace s @ cs\<rparr>)"
        using native_symbol_add_refused [of "Some m" "Some p" n env s] by auto
      with not k show ?thesis
        by (simp add: register_key_def EVP_wasm_runtime_register_natives_def queue_blocks_def)
    qed
  qed
qed

lemma register_keys_heap:
  assumes "queue_wf s"
  shows "queue_wf (fold (\<lambda>k t. snd (register_key env k t)) ks s) \<and>
    live (fold (\<lambda>k t. snd (register_key env k t)) ks s) - queue_blocks (fold (\<lambda>k t. snd (register_key env k t)) ks s) =
      live s - queue_blocks s \<and> ub (fold (\<lambda>k t. snd (register_key env k t)) ks s) = ub s"
  using assms
proof (induction ks arbitrary: s)
  case Nil
  then show ?case by simp
next
  case (Cons k ks)
  have "queue_wf (snd (register_key env k s))" using register_key_cases [OF Cons.prems] by blast
  from Cons.IH [OF this] register_key_heap [OF Cons.prems] show ?case by simp
qed

lemma register_keys_rest:
  assumes "queue_wf s"
  shows "agent_rest (fold (\<lambda>k t. snd (register_key env k t)) ks s) = agent_rest s"
  using assms
proof (induction ks arbitrary: s)
  case (Cons k ks)
  then show ?case using register_key_cases [OF Cons.prems, of env k] by simp
qed simp

text \<open>With memory available and non-empty arrays every registration before the start is accepted.\<close>

lemma register_keys_accepted:
  assumes "queue_wf s" "queue_keys s = []" "\<not> g_evp_agent_started s"
    and "\<And>h a. env_malloc env h a" "\<forall>k \<in> set ks. snd (snd k) \<noteq> 0"
    and "t = fold (\<lambda>k t. snd (register_key env k t)) ks s"
  shows "queue_wf t" "queue_keys t = ks" "native_visited t = native_visited s"
    "live t - queue_blocks t = live s" "ub t = ub s" "agent_rest t = agent_rest s"
proof -
  have "fst (register_key env k u) \<and> \<not> g_evp_agent_started (snd (register_key env k u))"
    if "k \<in> set ks" "queue_wf u" "\<not> g_evp_agent_started u" for k u
    using register_key_cases [OF that(2), of env k] that assms(4,5) by (simp add: agent_rest_def)
  from nq.adds_accepted [where P = "\<lambda>u. \<not> g_evp_agent_started u", OF assms(1) this assms(3)]
  show "queue_keys t = ks" by (simp add: assms(2,6))
  show "native_visited t = native_visited s" using nq.adds_contents [OF assms(1), of env ks] assms(6) by blast
  have "queue_blocks s = {}" using assms(2) by (simp add: queue_blocks_def queue_keys_def)
  then show "queue_wf t" "live t - queue_blocks t = live s" "ub t = ub s"
    using register_keys_heap [OF assms(1), of env ks] assms(6) by simp_all
  show "agent_rest t = agent_rest s" using register_keys_rest [OF assms(1)] assms(6) by simp
qed

section \<open>An agent at program start\<close>

definition agent_env_ok :: agent_env where
  "agent_env_ok = notif_env.extend notif_env_ok
     \<lparr>env_evp = \<lambda>_ _. (0, []), env_evp_agent_setup = \<lambda>_. 1, env_sys_client = \<lambda>_. Some 5,
      env_wasm_register_natives = \<lambda>_ _ _ _. True, EVP_AGENT_STATUS_INIT = 0, EVP_AGAIN = 11,
      env_pthread_setname_np = \<lambda>_. 0, env_pthread_create = \<lambda>_. 0,
      env_signalled = \<lambda>_. False,
      env_SwWdt = \<lambda>_ _. 0, kEsfPwrMgrOk = 0\<rparr>"

definition agent_boot :: agent_state where
  "agent_boot = notif_state.extend notif_boot
     \<lparr>g_evp_agent_ctxt = None, g_evp_agent_cmd = EVP_AGENT_LOOP, g_evp_agent_signalled = False,
      g_evp_agent_started = False, g_evp_agent_ret = 0, g_wasm_native_symbols = [], agents = {}\<rparr>"

lemma agent_env_ok_facts:
  "agent_contract agent_env_ok" "env_malloc agent_env_ok h a"
  "env_wasm_register_natives agent_env_ok h m p n" "env_evp agent_env_ok h c = (0, [])"
  "esf_contract agent_env_ok"
  using notif_env_ok_facts notif_start_facts(2)
  by (simp_all add: agent_env_ok_def agent_contract_def notif_env.defs notif_env_ok_def config_env_ok_def
      esf_env_ok_def log_env_ok_def log_env.defs esf_env.defs config_env.defs esf_contract_def
      clock_contract_def zeroize_contract_def inj_key_number)

lemma agent_boot_facts:
  "queue_wf agent_boot" "queue_keys agent_boot = []" "\<not> g_evp_agent_started agent_boot" "elog_wf agent_boot"
  "heap_wf agent_boot" "g_evp_agent_ctxt agent_boot = None" "live agent_boot = {}" "trace agent_boot = []"
  "\<not> ub agent_boot" "cache_empty (g_proxy_cache agent_boot)" "agents agent_boot = {}" "queue_blocks agent_boot = {}"
  "g_wasm_native_symbols agent_boot = []" "elog_map agent_boot = Map.empty" "elog_slots agent_boot = 128"
  "notif_globals agent_boot = (0, False, False, False, False)" "fresh agent_boot = 0"
  using notif_boot_facts
  by (simp_all add: agent_boot_def notif_state.defs queue_wf_def queue_keys_def queue_blocks_def heap_wf_def
      notif_boot_def esf_state.defs esf_start_def log_state.defs log_start_def elog_wf_def elog_map_def
      elog_slots_def notif_globals_def)

section \<open>Properties\<close>

text \<open>C11. Native symbols registered before the agent starts reach the WASM runtime in the order of
  their registration: the flush hands over exactly these, empties the queue and gives back all
  the memory the queue used, when memory is available and the runtime accepts them.\<close>

theorem native_symbols_fifo:
  assumes "queue_wf s" "queue_keys s = []" "\<not> g_evp_agent_started s"
    and "\<And>h a. env_malloc env h a" "\<And>h m p n. env_wasm_register_natives env' h m p n"
    and "\<forall>k \<in> set ks. snd (snd k) \<noteq> 0"
    and "evp_agent_flush_wasm_native_symbols env' (fold (\<lambda>k t. snd (register_key env k t)) ks s) = (ret, s')"
  shows "ret = 0 \<and> native_visited s' = native_visited s @ ks \<and> queue_keys s' = [] \<and>
    live s' = live s \<and> ub s' = ub s"
proof -
  let ?t = "fold (\<lambda>k t. snd (register_key env k t)) ks s"
  note t = register_keys_accepted [OF assms(1-4,6) refl]
  have "ret = 0"
    using flush_loop_calls [of env' "g_wasm_native_symbols ?t" 0 ?t] assms(5,7)
    by (auto simp: evp_agent_flush_wasm_native_symbols_def refused_def)
  moreover from this have "native_visited s' = native_visited s @ ks"
    using nq.flush_all [OF t(1), of env'] assms(7) t(2,3) by simp
  moreover have "queue_keys s' = []" using nq.flush_contents [OF t(1), of env'] assms(7) by simp
  moreover have "live s' = live s \<and> ub s' = ub s"
    using flush_loop_state [of ?t "g_wasm_native_symbols ?t" env' 0] t(1,4,5) assms(7)
    by (simp add: evp_agent_flush_wasm_native_symbols_def queue_wf_def queue_blocks_def)
  ultimately show ?thesis by blast
qed

theorem native_symbols_fifo_witness:
  "let ks = [(''env'', 7, 2), (''senscord'', 9, 1)] in
   native_visited (snd (evp_agent_flush_wasm_native_symbols agent_env_ok
     (fold (\<lambda>k t. snd (register_key agent_env_ok k t)) ks agent_boot))) = ks"
proof -
  let ?ks = "[(''env'', 7, 2), (''senscord'', 9, 1)] :: native_key list"
  let ?r = "evp_agent_flush_wasm_native_symbols agent_env_ok
     (fold (\<lambda>k t. snd (register_key agent_env_ok k t)) ?ks agent_boot)"
  have "native_visited (snd ?r) = native_visited agent_boot @ ?ks"
    using native_symbols_fifo [OF agent_boot_facts(1,2,3) agent_env_ok_facts(2,3), of ?ks "fst ?r" "snd ?r"]
    by simp
  then show ?thesis by (simp only: Let_def native_visited_def agent_boot_facts(8) native_regs.simps append_Nil)
qed



text \<open>C28. A registration of native symbols is refused when the agent has started, when the module name or
  the symbol array is NULL, when the array is empty (\<open>- EINVAL\<close>) or when there is no memory
  (\<open>- ENOMEM\<close>); a refusal changes nothing but the history. Otherwise the new entry is the last of
  the queue, in a block of its own.\<close>

theorem register_natives_outcome:
  assumes "queue_wf s" "EVP_wasm_runtime_register_natives env m p n s = (ok, s')"
  shows "(ok \<longleftrightarrow> \<not> g_evp_agent_started s \<and> m \<noteq> None \<and> p \<noteq> None \<and> n \<noteq> 0 \<and>
      env_malloc env (trace s) Alloc_native_symbol_entry) \<and>
    (\<not> ok \<longrightarrow> (\<exists>cs. s' = s\<lparr>trace := trace s @ cs\<rparr> \<and> balanced cs)) \<and>
    (ok \<longrightarrow> queue_wf s' \<and> queue_keys s' = queue_keys s @ [(the m, the p, n)] \<and>
       live s' = insert (fresh s) (live s) \<and> fresh s \<notin> live s)"
proof -
  consider "g_evp_agent_started s"
    | "\<not> g_evp_agent_started s" "m = None \<or> p = None \<or> n = 0 \<or> \<not> env_malloc env (trace s) Alloc_native_symbol_entry"
    | m' p' where "\<not> g_evp_agent_started s" "m = Some m'" "p = Some p'" "n \<noteq> 0"
        "env_malloc env (trace s) Alloc_native_symbol_entry"
    by (cases m; cases p) blast+
  then show ?thesis
  proof cases
    case 1
    then have "\<not> ok" "s' = s\<lparr>trace := trace s @ [EVP_AGENT_ERR ''evp-agent.c'' 193 ''EVP Agent has already started'' []]\<rparr>"
      using assms(2) by (auto simp: EVP_wasm_runtime_register_natives_def emit_def)
    with 1 show ?thesis by (auto simp: balanced_other)
  next
    case 2
    then show ?thesis
      using native_symbol_add_refused [OF 2(2)] assms(2)
      by (auto simp: EVP_wasm_runtime_register_natives_def split: if_splits)
  next
    case 3
    have "fresh s \<notin> live s" using assms(1) by (simp add: queue_wf_def)
    with 3 assms(2) queue_wf_append [OF assms(1), where e = "\<lparr>ne_block = fresh s, ne_module_name = m',
        ne_native_symbols = p', ne_n_native_symbols = n\<rparr>"] show ?thesis
      by (auto simp: EVP_wasm_runtime_register_natives_def native_symbol_add_accepted queue_keys_def entry_key_def)
  qed
qed

theorem register_natives_outcome_witness:
  "\<not> fst (EVP_wasm_runtime_register_natives agent_env_ok (Some ''env'') (Some 7) 0 agent_boot) \<and>
   fst (EVP_wasm_runtime_register_natives agent_env_ok (Some ''env'') (Some 7) 1 agent_boot)"
  using register_natives_outcome [OF agent_boot_facts(1), of agent_env_ok "Some ''env''" "Some 7" 0
      "fst (EVP_wasm_runtime_register_natives agent_env_ok (Some ''env'') (Some 7) 0 agent_boot)"
      "snd (EVP_wasm_runtime_register_natives agent_env_ok (Some ''env'') (Some 7) 0 agent_boot)"]
    register_natives_outcome [OF agent_boot_facts(1), of agent_env_ok "Some ''env''" "Some 7" 1
      "fst (EVP_wasm_runtime_register_natives agent_env_ok (Some ''env'') (Some 7) 1 agent_boot)"
      "snd (EVP_wasm_runtime_register_natives agent_env_ok (Some ''env'') (Some 7) 1 agent_boot)"]
  by (simp add: agent_boot_facts agent_env_ok_facts)

text \<open>C31. Before the agent thread has published its context the backdoor functions answer INIT, NULL, -1
  and AGAIN, and none of them calls the agent library.\<close>

theorem backdoor_before_start:
  assumes "g_evp_agent_ctxt s = None"
  shows "EVP_getAgentStatus env s = (EVP_AGENT_STATUS_INIT env, snd (get_backdoor_context s)) \<and>
    EVP_Agent_register_sys_client env s = (None, snd (get_backdoor_context s)) \<and>
    EVP_Agent_unregister_sys_client env c s = (-1, snd (get_backdoor_context s)) \<and>
    EVP_undeployModules env s = (EVP_AGAIN env, snd (get_backdoor_context s)) \<and>
    snd (get_backdoor_context s) = s\<lparr>trace := trace s @
      [OS (Call_mutex_lock g_evp_agent_lock), OS (Call_mutex_unlock g_evp_agent_lock)]\<rparr>"
  using assms
  by (simp add: EVP_getAgentStatus_def EVP_Agent_register_sys_client_def EVP_Agent_unregister_sys_client_def
      EVP_undeployModules_def get_backdoor_context_def mutex_lock_def mutex_unlock_def emit_def Let_def)

theorem backdoor_before_start_witness:
  "fst (EVP_undeployModules agent_env_ok agent_boot) = 11 \<and>
   fst (EVP_Agent_unregister_sys_client agent_env_ok 5 agent_boot) = -1"
  using backdoor_before_start [OF agent_boot_facts(6), of agent_env_ok 5]
  by (simp add: agent_env_ok_def notif_env.defs)

end
