(* ===== verification/Agent_Thread.thy ===== *)
theory Agent_Thread
  imports Agent_Api
begin

text \<open>
  The agent thread of \<open>evp-agent.c\<close>: set-up, main loop and the ladder of labels that releases what
  was acquired, and \<open>evp_agent_startup\<close> and \<open>evp_agent_shutdown\<close>.

  The main loop may run forever: it is a partial function into \<open>option\<close>, and \<open>None\<close> means that
  the thread does not return. The flag \<open>signalled\<close> is written by another thread: reading it
  yields what the environment says at that point of the history, or true once it is set here.
\<close>

section \<open>Definitions\<close>

definition EVP_SW_WDT_ID :: nat where "EVP_SW_WDT_ID = 1"

definition LIB_SENSCORD_WAMR_SO :: string where
  "LIB_SENSCORD_WAMR_SO = ''/opt/senscord/lib/libsenscord_wamr.so''"

definition sw_wdt ::
  "'e agent_env_scheme \<Rightarrow> esf_call \<Rightarrow> 's io_state_scheme \<Rightarrow> int \<times> 's io_state_scheme" where
  "sw_wdt env call s = (env_SwWdt env (trace s) call, emit (ESF call) s)"

definition agent_signalled :: "'e agent_env_scheme \<Rightarrow> 's agent_state_scheme \<Rightarrow> bool" where
  "agent_signalled env s \<longleftrightarrow> g_evp_agent_signalled s \<or> env_signalled env (trace s)"

text \<open>One round of the loop: the watchdog is kept alive, then the agent works.\<close>

definition agent_loop_round ::
  "'e agent_env_scheme \<Rightarrow> nat \<Rightarrow> 's agent_state_scheme \<Rightarrow> int \<times> 's agent_state_scheme" where
  "agent_loop_round env ctxt s =
     (let (wdt_err, s1) = sw_wdt env (Call_EsfPwrMgrSwWdtKeepalive EVP_SW_WDT_ID) s;
          s2 = (if wdt_err \<noteq> kEsfPwrMgrOk env then emit (EVP_AGENT_ERR ''evp-agent.c'' 292
                  ''EsfPwrMgrSwWdtKeepalive failed: %d'' [FInt wdt_err]) s1 else s1)
      in evp_lib env ctxt (Call_evp_agent_loop ctxt) s2)"

partial_function (option) agent_loop ::
  "'e agent_env_scheme \<Rightarrow> nat \<Rightarrow> int \<Rightarrow> 's agent_state_scheme \<Rightarrow> (int \<times> 's agent_state_scheme) option" where
  "agent_loop env ctxt ret s =
     (if ret = 0 then
        let (ret1, s1) = agent_loop_round env ctxt s
        in if agent_signalled env s1 then Some (ret1, s1)
           else agent_loop env ctxt ret1 s1
      else Some (ret, s))"

text \<open>The labels, from the last to the first.\<close>

definition out_free_evp_agent ::
  "'e agent_env_scheme \<Rightarrow> nat \<Rightarrow> int \<Rightarrow> 's agent_state_scheme \<Rightarrow> 's agent_state_scheme" where
  "out_free_evp_agent env ctxt ret s =
     (let (_, s1) = evp_lib env ctxt (Call_evp_agent_free ctxt) s;
          s2 = s1\<lparr>agents := agents s1 - {ctxt}, g_evp_agent_ret := ret\<rparr>
      in emit (OS (Call_pthread_exit ret)) s2)"

definition out_deinit_proxy_cache ::
  "'e agent_env_scheme \<Rightarrow> nat \<Rightarrow> int \<Rightarrow> 's agent_state_scheme \<Rightarrow> 's agent_state_scheme" where
  "out_deinit_proxy_cache env ctxt ret s =
     out_free_evp_agent env ctxt ret (evp_agent_esf_deinit_proxy_cache s)"

definition out_stop_evp_agent ::
  "'e agent_env_scheme \<Rightarrow> nat \<Rightarrow> int \<Rightarrow> 's agent_state_scheme \<Rightarrow> 's agent_state_scheme" where
  "out_stop_evp_agent env ctxt ret s =
     (let (_, s1) = evp_lib env ctxt (Call_evp_agent_stop ctxt) s in out_deinit_proxy_cache env ctxt ret s1)"

definition out_disconnect_evp_agent ::
  "'e agent_env_scheme \<Rightarrow> nat \<Rightarrow> int \<Rightarrow> 's agent_state_scheme \<Rightarrow> 's agent_state_scheme" where
  "out_disconnect_evp_agent env ctxt ret s =
     (let (_, s1) = evp_lib env ctxt (Call_evp_agent_disconnect ctxt) s in out_stop_evp_agent env ctxt ret s1)"

text \<open>From the start of the watchdog, with \<open>ret = 0\<close>.\<close>

definition evp_agent_thread_watched ::
  "'e agent_env_scheme \<Rightarrow> nat \<Rightarrow> 's agent_state_scheme \<Rightarrow> 's agent_state_scheme option" where
  "evp_agent_thread_watched env ctxt s =
     (let (wdt_err, s1) = sw_wdt env (Call_EsfPwrMgrSwWdtStart EVP_SW_WDT_ID) s
      in if wdt_err \<noteq> kEsfPwrMgrOk env then Some (out_disconnect_evp_agent env ctxt 0 s1)
         else
           let s2 = set_backdoor_context (Some ctxt) s1
           in case agent_loop env ctxt 0 s2 of
                None \<Rightarrow> None
              | Some (ret, s3) \<Rightarrow>
                  (let (wdt_err, s4) = sw_wdt env (Call_EsfPwrMgrSwWdtStop EVP_SW_WDT_ID) s3;
                       s5 = (if wdt_err \<noteq> kEsfPwrMgrOk env then emit (EVP_AGENT_ERR ''evp-agent.c'' 302
                               ''EsfPwrMgrSwWdtStop failed: %d'' [FInt wdt_err]) s4 else s4)
                   in Some (out_disconnect_evp_agent env ctxt ret s5)))"

text \<open>With the context set up, from the registration of the platform functions.\<close>

definition evp_agent_thread_body ::
  "'e agent_env_scheme \<Rightarrow> nat \<Rightarrow> 's agent_state_scheme \<Rightarrow> 's agent_state_scheme option" where
  "evp_agent_thread_body env ctxt s =
     (let (ret, s1) = evp_lib env ctxt (Call_evp_agent_platform_register ctxt) s in
      if ret \<noteq> 0 then
        Some (out_free_evp_agent env ctxt ret (emit (ESF (Call_UtilityLogWriteDLog kUtilityLogDlogLevelError
          ''Failed to register platform: %d'' [FInt ret])) s1))
      else let (ret, s2) = agent_status_handler env (Some ''disconnected'') s1 in
      if ret \<noteq> 0 then Some (out_free_evp_agent env ctxt ret s2)
      else let (ret, s3) = evp_agent_esf_init_proxy_cache env s2 in
      if ret \<noteq> 0 then Some (out_free_evp_agent env ctxt ret s3)
      else let (ret, s4) = evp_agent_notifications_register env ctxt s3 in
      if ret \<noteq> 0 then Some (out_deinit_proxy_cache env ctxt ret s4)
      else let (ret, s5) = evp_lib env ctxt (Call_evp_agent_start ctxt) s4 in
      if ret \<noteq> 0 then Some (out_deinit_proxy_cache env ctxt ret s5)
      else let (ret, s6) = evp_agent_flush_wasm_native_symbols env s5 in
      if ret \<noteq> 0 then Some (out_stop_evp_agent env ctxt ret s6)
      else let (ret, s7) = evp_lib env ctxt (Call_evp_agent_connect ctxt) s6 in
      if ret \<noteq> 0 then Some (out_stop_evp_agent env ctxt ret s7)
      else evp_agent_thread_watched env ctxt s7)"

definition evp_agent_thread ::
  "'e agent_env_scheme \<Rightarrow> 's agent_state_scheme \<Rightarrow> 's agent_state_scheme option" where
  "evp_agent_thread env s =
     (let s1 = s\<lparr>g_evp_agent_started := True\<rparr>;
          ret = env_pthread_setname_np env (trace s1);
          s2 = emit (OS (Call_pthread_setname_np ''EVP Agent'')) s1
      in if ret \<noteq> 0 then
           Some (emit (OS (Call_pthread_exit ret))
             ((emit (EVP_AGENT_ERR ''evp-agent.c'' 235 ''failed to set threadname'' []) s2)\<lparr>g_evp_agent_ret := ret\<rparr>))
         else
           let ctxt = env_evp_agent_setup env (trace s2);
               s3 = (emit (EVP (Call_evp_agent_setup ''evp_agent'')) s2)\<lparr>agents := insert ctxt (agents s2)\<rparr>
           in evp_agent_thread_body env ctxt s3)"

definition evp_agent_shutdown :: "'s agent_state_scheme \<Rightarrow> 's agent_state_scheme" where
  "evp_agent_shutdown s = emit (OS Call_pthread_join) (s\<lparr>g_evp_agent_signalled := True\<rparr>)"

text \<open>The build sets \<open>CONFIG_EVP_MODULE_IMPL_WASM\<close>.\<close>

definition evp_add_wasm_native_library :: "string \<Rightarrow> 's io_state_scheme \<Rightarrow> 's io_state_scheme" where
  "evp_add_wasm_native_library fname s = emit (EVP (Call_wasm_add_native_lib fname)) s"

definition evp_agent_startup ::
  "'e agent_env_scheme \<Rightarrow> 's agent_state_scheme \<Rightarrow> int \<times> 's agent_state_scheme" where
  "evp_agent_startup env s =
     (let ret = env_pthread_create env (trace s);
          s1 = emit (OS Call_pthread_create) s
      in if ret \<noteq> 0 then (ret, s1)
         else (0, evp_add_wasm_native_library LIB_SENSCORD_WAMR_SO s1))"

section \<open>Releasing the proxy cache from any state\<close>

lemma deinit_releases:
  assumes "distinct (cache_ptrs (g_proxy_cache s))" "set (cache_ptrs (g_proxy_cache s)) \<subseteq> live s"
  shows "live (evp_agent_esf_deinit_proxy_cache s) = live s - set (cache_ptrs (g_proxy_cache s)) \<and>
    ub (evp_agent_esf_deinit_proxy_cache s) = ub s"
  using assms
  by (auto simp: evp_agent_esf_deinit_proxy_cache_def Let_def cache_ptrs_def split: option.splits)

lemma deinit_trace:
  "\<exists>cs. trace (evp_agent_esf_deinit_proxy_cache s) = trace s @ cs \<and> balanced cs \<and> list_all local_call cs"
  by (auto simp: evp_agent_esf_deinit_proxy_cache_def Let_def balanced_other lock_call_def split: option.splits)

lemma deinit_rest:
  "fresh (evp_agent_esf_deinit_proxy_cache s) = fresh s"
  "agents (evp_agent_esf_deinit_proxy_cache t) = agents t"
  "g_wasm_native_symbols (evp_agent_esf_deinit_proxy_cache t) = g_wasm_native_symbols t"
  "elog_wf (evp_agent_esf_deinit_proxy_cache s) = elog_wf s"
  "g_evp_agent_ctxt (evp_agent_esf_deinit_proxy_cache t) = g_evp_agent_ctxt t"
  "g_evp_agent_signalled (evp_agent_esf_deinit_proxy_cache t) = g_evp_agent_signalled t"
  by (auto simp: evp_agent_esf_deinit_proxy_cache_def Let_def c_free_def emit_def undefined_behaviour_def
      elog_wf_def split: option.splits)

section \<open>What the thread holds\<close>

text \<open>The calls that acquire or release: the life cycle of the agent and of the watchdog, and the
  registrations of native symbols with the runtime.\<close>

fun lifecycle_call :: "ext_call \<Rightarrow> bool" where
  "lifecycle_call (EVP (Call_evp_agent_setup n)) = True"
| "lifecycle_call (EVP (Call_evp_agent_start c)) = True"
| "lifecycle_call (EVP (Call_evp_agent_connect c)) = True"
| "lifecycle_call (EVP (Call_evp_agent_loop c)) = True"
| "lifecycle_call (EVP (Call_evp_agent_disconnect c)) = True"
| "lifecycle_call (EVP (Call_evp_agent_stop c)) = True"
| "lifecycle_call (EVP (Call_evp_agent_free c)) = True"
| "lifecycle_call (EVP (Call_wasm_runtime_register_natives m p n)) = True"
| "lifecycle_call (ESF (Call_EsfPwrMgrSwWdtStart i)) = True"
| "lifecycle_call (ESF (Call_EsfPwrMgrSwWdtKeepalive i)) = True"
| "lifecycle_call (ESF (Call_EsfPwrMgrSwWdtStop i)) = True"
| "lifecycle_call _ = False"

text \<open>
  A life-cycle call with what it answered: the context of \<open>evp_agent_setup\<close>, the result of the calls
  whose result the thread looks at, whether the runtime accepted a symbol; 0 for a call whose
  result the thread does not use. The answers are those of the environment at that point of the
  history, \<open>h\<close> being the history before the calls.
\<close>

fun call_answer :: "'e agent_env_scheme \<Rightarrow> history \<Rightarrow> ext_call \<Rightarrow> int" where
  "call_answer env h (EVP (Call_evp_agent_setup n)) = int (env_evp_agent_setup env h)"
| "call_answer env h (EVP (Call_evp_agent_start c)) = fst (env_evp env h (Call_evp_agent_start c))"
| "call_answer env h (EVP (Call_evp_agent_connect c)) = fst (env_evp env h (Call_evp_agent_connect c))"
| "call_answer env h (EVP (Call_evp_agent_loop c)) = fst (env_evp env h (Call_evp_agent_loop c))"
| "call_answer env h (EVP (Call_wasm_runtime_register_natives m p n)) =
     of_bool (env_wasm_register_natives env h m p n)"
| "call_answer env h (ESF (Call_EsfPwrMgrSwWdtStart i)) = env_SwWdt env h (Call_EsfPwrMgrSwWdtStart i)"
| "call_answer env h _ = 0"

fun lifecycle :: "'e agent_env_scheme \<Rightarrow> history \<Rightarrow> history \<Rightarrow> (ext_call \<times> int) list" where
  "lifecycle env h [] = []"
| "lifecycle env h (c # cs) =
     (if lifecycle_call c then [(c, call_answer env h c)] else []) @ lifecycle env (h @ [c]) cs"

lemma lifecycle_append [simp]: "lifecycle env h (xs @ ys) = lifecycle env h xs @ lifecycle env (h @ xs) ys"
  by (induction xs arbitrary: h) simp_all

lemma local_not_lifecycle: "local_call c \<Longrightarrow> \<not> lifecycle_call c"
  by (cases c rule: local_call.cases) auto

lemma lifecycle_local: "list_all local_call cs \<Longrightarrow> lifecycle env h cs = []"
  by (induction cs arbitrary: h) (auto simp: local_not_lifecycle)

definition native_call :: "native_key \<Rightarrow> ext_call" where
  "native_call k = EVP (Call_wasm_runtime_register_natives (fst k) (fst (snd k)) (snd (snd k)))"

text \<open>The registrations of a flush that returned \<open>ret\<close>: all accepted, or all but the last.\<close>

definition flush_answers :: "int \<Rightarrow> native_key list \<Rightarrow> (ext_call \<times> int) list" where
  "flush_answers ret ks =
     (if ret = 0 then map (\<lambda>k. (native_call k, 1)) ks
      else map (\<lambda>k. (native_call k, 1)) (butlast ks) @ [(native_call (last ks), 0)])"

lemma flush_released:
  "ret \<noteq> 0 \<Longrightarrow> \<exists>cs. trace (snd (flush_loop env es ret s)) = trace s @ cs \<and> balanced cs \<and>
     list_all local_call cs \<and> fst (flush_loop env es ret s) = ret"
proof (induction es arbitrary: s)
  case Nil
  then show ?case by (auto intro: exI [of _ "[]"])
next
  case (Cons e es)
  let ?t = "snd (flush_entry env e ret s)"
  have t: "trace ?t = trace s @ [OS (Call_free (ne_block e))]" "fst (flush_entry env e ret s) = ret"
    using Cons.prems by (simp_all add: flush_entry_def Let_def)
  obtain cs where "trace (snd (flush_loop env es ret ?t)) = trace ?t @ cs" "balanced cs" "list_all local_call cs"
    "fst (flush_loop env es ret ?t) = ret" using Cons.IH [OF Cons.prems, of ?t] by blast
  with t show ?case
    unfolding flush_loop_Cons t(2)
    by (intro exI [of _ "OS (Call_free (ne_block e)) # cs"]) (simp add: balanced_other lock_call_def)
qed

lemma flush_lifecycle:
  "\<exists>cs ks rest. trace (snd (flush_loop env es 0 s)) = trace s @ cs \<and> balanced cs \<and>
     lifecycle env (trace s) cs = flush_answers (fst (flush_loop env es 0 s)) ks \<and> map entry_key es = ks @ rest \<and>
     (fst (flush_loop env es 0 s) = 0 \<and> rest = [] \<or> fst (flush_loop env es 0 s) = -1 \<and> ks \<noteq> [])"
proof (induction es arbitrary: s)
  case Nil
  then show ?case by (intro exI [of _ "[]"]) (simp add: flush_answers_def)
next
  case (Cons e es)
  let ?r = "fst (flush_entry env e 0 s)" and ?t = "snd (flush_entry env e 0 s)"
  let ?c = "native_call (entry_key e)" and ?f = "OS (Call_free (ne_block e))"
  let ?err = "EVP_AGENT_ERR ''evp-agent.c'' 214 ''Failed to register native symbols'' []"
  have c: "EVP (Call_wasm_runtime_register_natives (ne_module_name e) (ne_native_symbols e) (ne_n_native_symbols e)) = ?c"
    by (simp add: native_call_def entry_key_def)
  show ?case
  proof (cases "env_wasm_register_natives env (trace s) (ne_module_name e) (ne_native_symbols e) (ne_n_native_symbols e)")
    case True
    then have t: "?r = 0" "trace ?t = trace s @ [?c, ?f]" by (simp_all add: flush_entry_def Let_def c)
    have l: "lifecycle env (trace s) [?c, ?f] = [(?c, 1)]" "balanced [?c, ?f]"
      using True by (simp_all add: native_call_def entry_key_def balanced_other lock_call_def)
    obtain cs ks rest where I: "trace (snd (flush_loop env es 0 ?t)) = trace ?t @ cs" "balanced cs"
      "lifecycle env (trace ?t) cs = flush_answers (fst (flush_loop env es 0 ?t)) ks" "map entry_key es = ks @ rest"
      "fst (flush_loop env es 0 ?t) = 0 \<and> rest = [] \<or> fst (flush_loop env es 0 ?t) = -1 \<and> ks \<noteq> []"
      using Cons.IH [of ?t] by blast
    have "lifecycle env (trace s) ([?c, ?f] @ cs) = [(?c, 1)] @ flush_answers (fst (flush_loop env es 0 ?t)) ks"
      unfolding lifecycle_append l t(2) [symmetric] I(3) by (rule refl)
    moreover have "\<dots> = flush_answers (fst (flush_loop env es 0 ?t)) (entry_key e # ks)"
      using I(5) by (auto simp: flush_answers_def)
    moreover have "trace (snd (flush_loop env es 0 ?t)) = trace s @ ([?c, ?f] @ cs)" "map entry_key (e # es) = (entry_key e # ks) @ rest"
      using I(1,4) t(2) by simp_all
    ultimately show ?thesis
      using I(5) balanced_append [OF l(2) I(2)] unfolding flush_loop_Cons t(1) by (metis list.distinct(1))
  next
    case False
    then have t: "?r = -1" "trace ?t = trace s @ [?c, ?err, ?f]" by (simp_all add: flush_entry_def Let_def c)
    have l: "lifecycle env (trace s) [?c, ?err, ?f] = [(?c, 0)]" "balanced [?c, ?err, ?f]"
      using False by (simp_all add: native_call_def entry_key_def EVP_AGENT_ERR_def balanced_other lock_call_def)
    obtain cs where I: "trace (snd (flush_loop env es (-1) ?t)) = trace ?t @ cs" "balanced cs" "list_all local_call cs"
      "fst (flush_loop env es (-1) ?t) = -1" using flush_released [of "-1" env es ?t] by auto
    have "lifecycle env (trace s) ([?c, ?err, ?f] @ cs) = flush_answers (-1) [entry_key e]"
      unfolding lifecycle_append l lifecycle_local [OF I(3)] by (simp add: flush_answers_def)
    moreover have "trace (snd (flush_loop env es (-1) ?t)) = trace s @ ([?c, ?err, ?f] @ cs)"
      "map entry_key (e # es) = [entry_key e] @ map entry_key es"
      using I(1) t(2) by simp_all
    ultimately show ?thesis
      using I(4) balanced_append [OF l(2) I(2)] unfolding flush_loop_Cons t(1) by (metis list.distinct(1))
  qed
qed

text \<open>
  \<open>thread_inv env s0 L A Q P s\<close>: since \<open>s0\<close> nothing undefined has happened and the mutexes taken were
  released; the heap holds the blocks \<open>L\<close> and one block for each string of the proxy cache; the
  library holds the contexts \<open>A\<close>, the queue the entries \<open>Q\<close>; the thread has not touched its own flag
  \<open>signalled\<close>; and \<open>P\<close> are the life-cycle calls made, with their answers.
\<close>

definition thread_inv ::
  "'e agent_env_scheme \<Rightarrow> 's agent_state_scheme \<Rightarrow> nat set \<Rightarrow> nat set \<Rightarrow> native_symbol_entry list \<Rightarrow>
   (ext_call \<times> int) list \<Rightarrow> 's agent_state_scheme \<Rightarrow> bool" where
  "thread_inv env s0 L A Q P s \<longleftrightarrow> heap_wf s \<and> elog_wf s \<and> ub s = ub s0 \<and>
     live s = L \<union> set (cache_ptrs (g_proxy_cache s)) \<and> L \<inter> set (cache_ptrs (g_proxy_cache s)) = {} \<and>
     distinct (cache_ptrs (g_proxy_cache s)) \<and> agents s = A \<and> g_wasm_native_symbols s = Q \<and>
     g_evp_agent_signalled s = g_evp_agent_signalled s0 \<and>
     (\<exists>cs. trace s = trace s0 @ cs \<and> balanced cs \<and> lifecycle env (trace s0) cs = P)"

lemma thread_inv_facts:
  assumes "thread_inv env s0 L A Q P s"
  shows "heap_wf s" "elog_wf s" "agents s = A" "g_wasm_native_symbols s = Q"
    "g_evp_agent_signalled s = g_evp_agent_signalled s0"
  using assms by (simp_all add: thread_inv_def)

text \<open>Steps that extend the history and keep the rest of what the invariant mentions.\<close>

lemma thread_inv_step:
  assumes "thread_inv env s0 L A Q P s" "trace t = trace s @ cs" "balanced cs"
    and "lifecycle env (trace s) cs = R"
    and "live t = live s" "fresh s \<le> fresh t" "ub t = ub s" "elog_wf t = elog_wf s"
    and "g_proxy_cache t = g_proxy_cache s" "agents t = agents s" "g_wasm_native_symbols t = g_wasm_native_symbols s"
    and "g_evp_agent_signalled t = g_evp_agent_signalled s"
  shows "thread_inv env s0 L A Q (P @ R) t"
proof -
  obtain ds where ds: "trace s = trace s0 @ ds" "balanced ds" "lifecycle env (trace s0) ds = P"
    using assms(1) by (auto simp: thread_inv_def)
  have "trace t = trace s0 @ (ds @ cs)" "balanced (ds @ cs)" "lifecycle env (trace s0) (ds @ cs) = P @ R"
    using ds assms(2-4) by (simp_all add: balanced_append)
  moreover have "heap_wf t"
    using thread_inv_facts(1) [OF assms(1)] assms(5,6) unfolding heap_wf_def by (metis less_le_trans)
  ultimately show ?thesis using assms by (auto simp: thread_inv_def)
qed

lemma thread_inv_local:
  assumes "thread_inv env s0 L A Q P s" "local_step s t"
  shows "thread_inv env s0 L A Q P t"
proof -
  obtain cs where cs: "trace t = trace s @ cs" "balanced cs" "list_all local_call cs"
    using assms(2) by (auto simp: local_step_def)
  have rest: "g_proxy_cache t = g_proxy_cache s" "agents t = agents s" "elog_wf t = elog_wf s"
    "g_wasm_native_symbols t = g_wasm_native_symbols s" "g_evp_agent_signalled t = g_evp_agent_signalled s"
    using local_step_rest [OF assms(2)] by (simp_all add: agent_rest_def)
  show ?thesis
    using thread_inv_step [OF assms(1) cs(1,2) lifecycle_local [OF cs(3)]] rest assms(2)
    by (simp add: local_step_def)
qed

lemma thread_inv_emit:
  assumes "thread_inv env s0 L A Q P s" "\<not> lock_call c"
  shows "thread_inv env s0 L A Q (P @ lifecycle env (trace s) [c]) (emit c s)"
  using assms(2) by (intro thread_inv_step [OF assms(1), of _ "[c]"]) (simp_all add: balanced_other emit_def elog_wf_def)

lemma thread_inv_lib:
  assumes "thread_inv env s0 L A Q P s" "agent_contract env" "ctxt \<in> A" "evp_lib env ctxt call s = (ret, t)"
  shows "thread_inv env s0 L A Q (P @ lifecycle env (trace s) [EVP call]) t"
proof -
  have "local_step (emit (EVP call) s) t"
    using evp_lib_step(1) [OF assms(2), of s ctxt call] thread_inv_facts [OF assms(1)] assms(3,4) by simp
  with thread_inv_emit [OF assms(1), of "EVP call"] show ?thesis by (auto intro: thread_inv_local)
qed

lemma evp_lib_ret: "fst (evp_lib env ctxt call s) = fst (env_evp env (trace s) call)"
  by (simp add: evp_lib_def case_prod_beta Let_def)

lemma evp_lib_cache:
  assumes "thread_inv env s0 L A Q P s" "agent_contract env" "ctxt \<in> A" "evp_lib env ctxt call s = (ret, t)"
  shows "g_proxy_cache t = g_proxy_cache s"
proof -
  have "local_step (emit (EVP call) s) t"
    using evp_lib_step(1) [OF assms(2), of s ctxt call] thread_inv_facts [OF assms(1)] assms(3,4) by simp
  then have "kept t = kept s" by (simp add: local_step_def edc_frame)
  then show ?thesis by (simp add: kept_def)
qed

lemma thread_inv_wdt:
  assumes "thread_inv env s0 L A Q P s" "sw_wdt env call s = (e, t)"
  shows "thread_inv env s0 L A Q (P @ lifecycle env (trace s) [ESF call]) t"
  using thread_inv_emit [OF assms(1), of "ESF call"] assms(2) by (auto simp: sw_wdt_def)

lemma thread_inv_log:
  "thread_inv env s0 L A Q P s \<Longrightarrow> thread_inv env s0 L A Q P (emit (EVP_AGENT_ERR f l m a) s)"
  using thread_inv_emit [of env s0 L A Q P s "EVP_AGENT_ERR f l m a"] by (simp add: EVP_AGENT_ERR_def)

lemma thread_inv_deinit:
  assumes "thread_inv env s0 L A Q P s"
  shows "thread_inv env s0 L A Q P (evp_agent_esf_deinit_proxy_cache s)"
    "cache_empty (g_proxy_cache (evp_agent_esf_deinit_proxy_cache s))"
proof -
  let ?t = "evp_agent_esf_deinit_proxy_cache s"
  have d: "live ?t = live s - set (cache_ptrs (g_proxy_cache s))" "ub ?t = ub s"
    using deinit_releases [of s] assms by (auto simp: thread_inv_def)
  have e: "cache_empty (g_proxy_cache ?t)" by (simp add: deinit_cache cache_empty_def)
  then show "cache_empty (g_proxy_cache ?t)" .
  obtain cs where cs: "trace ?t = trace s @ cs" "balanced cs" "list_all local_call cs"
    using deinit_trace [of s] by blast
  obtain ds where ds: "trace s = trace s0 @ ds" "balanced ds" "lifecycle env (trace s0) ds = P"
    using assms by (auto simp: thread_inv_def)
  have "trace ?t = trace s0 @ (ds @ cs)" "balanced (ds @ cs)" "lifecycle env (trace s0) (ds @ cs) = P"
    using cs ds by (simp_all add: balanced_append lifecycle_local)
  moreover have "live ?t = L" using d assms by (auto simp: thread_inv_def)
  moreover have "heap_wf ?t" using d assms by (auto simp: thread_inv_def heap_wf_def deinit_rest)
  ultimately show "thread_inv env s0 L A Q P ?t"
    using assms d e by (auto simp: thread_inv_def deinit_rest cache_empty_ptrs)
qed

lemma thread_inv_init_proxy:
  assumes "thread_inv env s0 L A Q P s" "cache_empty (g_proxy_cache s)"
    and "esf_contract env" "evp_agent_esf_init_proxy_cache env s = (ret, t)"
  shows "thread_inv env s0 L A Q P t" "ret \<noteq> 0 \<Longrightarrow> cache_empty (g_proxy_cache t)"
proof -
  have h: "heap_wf s" using assms(1) by (rule thread_inv_facts)
  note I = init_proxy_cache_owns [OF h assms(2-4)]
  note F = owns_facts [OF I(1) h]
  show "ret \<noteq> 0 \<Longrightarrow> cache_empty (g_proxy_cache t)" by (rule I(3))
  have a: "allocs neutral (set (cache_ptrs (g_proxy_cache t))) s (t\<lparr>g_proxy_cache := g_proxy_cache s\<rparr>)"
    and d: "distinct (cache_ptrs (g_proxy_cache t))"
    using I(1) by (simp_all add: owns_def)
  obtain cs n where t: "t\<lparr>g_proxy_cache := g_proxy_cache s\<rparr> =
      s\<lparr>trace := trace s @ cs, live := live s \<union> set (cache_ptrs (g_proxy_cache t)), fresh := fresh s + n\<rparr>"
    "list_all neutral cs" using a by (rule allocsE)
  have f: "trace t = trace s @ cs" "agents t = agents s" "g_wasm_native_symbols t = g_wasm_native_symbols s"
    "elog_wf t = elog_wf s" "g_evp_agent_signalled t = g_evp_agent_signalled s"
    using arg_cong [OF t(1), of trace] arg_cong [OF t(1), of agents] arg_cong [OF t(1), of g_wasm_native_symbols]
      arg_cong [OF t(1), of elog_wf] arg_cong [OF t(1), of g_evp_agent_signalled]
    by (simp_all add: elog_wf_def)
  have "list_all local_call cs" using t(2) by (auto simp: list_all_iff neutral_local)
  then have l: "lifecycle env h cs = []" "balanced cs" for h
    using lifecycle_local neutral_balanced [OF t(2)] by auto
  obtain ds where ds: "trace s = trace s0 @ ds" "balanced ds" "lifecycle env (trace s0) ds = P"
    using assms(1) by (auto simp: thread_inv_def)
  have "trace t = trace s0 @ (ds @ cs)" "balanced (ds @ cs)" "lifecycle env (trace s0) (ds @ cs) = P"
    using f(1) l ds by (simp_all add: balanced_append)
  moreover have "live s = L" using assms(1,2) by (simp add: thread_inv_def cache_empty_ptrs)
  ultimately show "thread_inv env s0 L A Q P t"
    using assms(1) F d f by (auto simp: thread_inv_def)
qed

lemma thread_inv_flush:
  assumes "thread_inv env s0 L A Q P s" "distinct (map ne_block Q)" "ne_block ` set Q \<subseteq> L"
    and "evp_agent_flush_wasm_native_symbols env s = (ret, t)"
  shows "\<exists>ks. thread_inv env s0 (L - ne_block ` set Q) A [] (P @ flush_answers ret ks) t \<and> prefix ks (map entry_key Q) \<and>
    (ret = 0 \<and> ks = map entry_key Q \<or> ret = -1 \<and> ks \<noteq> [])"
proof -
  have Q: "g_wasm_native_symbols s = Q" using assms(1) by (rule thread_inv_facts)
  have sub: "ne_block ` set Q \<subseteq> live s" using assms(1,3) by (auto simp: thread_inv_def)
  have r: "flush_loop env Q 0 s = (ret, t)" using assms(4) Q by (simp add: evp_agent_flush_wasm_native_symbols_def)
  have st: "g_wasm_native_symbols t = []" "live t = live s - ne_block ` set Q" "ub t = ub s" "fresh t = fresh s"
    "agent_rest t = agent_rest s"
    using flush_loop_state [OF Q assms(2) sub, of env 0] r by simp_all
  obtain cs ks rest where cs: "trace t = trace s @ cs" "balanced cs"
    "lifecycle env (trace s) cs = flush_answers ret ks" "map entry_key Q = ks @ rest"
    "ret = 0 \<and> rest = [] \<or> ret = -1 \<and> ks \<noteq> []"
    using flush_lifecycle [of env Q s] unfolding r fst_conv snd_conv by blast
  obtain ds where ds: "trace s = trace s0 @ ds" "balanced ds" "lifecycle env (trace s0) ds = P"
    using assms(1) by (auto simp: thread_inv_def)
  have "trace t = trace s0 @ (ds @ cs)" "balanced (ds @ cs)"
    "lifecycle env (trace s0) (ds @ cs) = P @ flush_answers ret ks"
    using cs ds by (simp_all add: balanced_append)
  moreover have "live t = L - ne_block ` set Q \<union> set (cache_ptrs (g_proxy_cache s))"
    using st(2) assms(1,3) by (auto simp: thread_inv_def)
  moreover have "(L - ne_block ` set Q) \<inter> set (cache_ptrs (g_proxy_cache s)) = {}"
    using assms(1) by (auto simp: thread_inv_def)
  moreover have "heap_wf t" using thread_inv_facts(1) [OF assms(1)] st(2,4) by (auto simp: heap_wf_def)
  ultimately have "thread_inv env s0 (L - ne_block ` set Q) A [] (P @ flush_answers ret ks) t"
    using assms(1) st by (auto simp: thread_inv_def agent_rest_def)
  with cs(4,5) show ?thesis by (intro exI [of _ ks]) auto
qed

lemma thread_inv_reg:
  assumes "thread_inv env s0 L A Q P s"
  shows "thread_inv env s0 L A Q P (SystemRegElog c v m s)"
proof -
  obtain cs where cs: "trace (SystemRegElog c v m s) = trace s @ cs" "balanced cs"
    using elog_exec_balanced [OF thread_inv_facts(2) [OF assms], of _ "Op_reg c v m"] by auto
  have "lifecycle env (trace s) cs = []"
    using cs(1) by (auto simp: SystemRegElog_eq EVP_AGENT_WARN_def split: if_splits)
  moreover have "elog_wf (SystemRegElog c v m s) = elog_wf s"
    using elog.reg_wf [of s c v m] thread_inv_facts(2) [OF assms] by simp
  ultimately show ?thesis
    using thread_inv_step [OF assms cs] by (simp add: SystemRegElog_eq)
qed

lemma lifecycle_subscribe:
  "\<exists>cs. snd (subscribe_all env ctxt subs s) = s\<lparr>trace := trace s @ cs\<rparr> \<and> balanced cs \<and>
     (\<forall>e h. lifecycle (e :: 'b agent_env_scheme) h cs = [])"
proof (induction subs arbitrary: s)
  case Nil
  then show ?case by (auto intro: exI [of _ "[]"] simp:)
next
  case (Cons sub subs)
  obtain topic handler line err where sub: "sub = (topic, handler, line, err)" by (cases sub)
  let ?c = "EVP (Call_evp_agent_notification_subscribe ctxt topic handler)"
  obtain cs where "snd (subscribe_all env ctxt subs (emit ?c s)) = (emit ?c s)\<lparr>trace := trace (emit ?c s) @ cs\<rparr>"
    "balanced cs" "\<forall>e h. lifecycle (e :: 'b agent_env_scheme) h cs = []" using Cons.IH by blast
  with sub show ?case
    by (auto simp: Let_def emit_def balanced_other EVP_AGENT_ERR_def)
qed

lemma thread_inv_register:
  assumes "thread_inv env s0 L A Q P s" "evp_agent_notifications_register env ctxt s = (ret, t)"
  shows "thread_inv env s0 L A Q P t"
proof -
  let ?u = "SystemRegElog ELOG_EVP_WASM_STATUS 0x0 ''EVP Block Warning 3.''
    (SystemRegElog ELOG_EVP_MQTT_STATUS 0x0 ''EVP Block Warning 2.''
      (SystemRegElog ELOG_EVP_BLOB_NETWORK_STATUS 0x40 ''EVP Block Warning.'' s))"
  have u: "thread_inv env s0 L A Q P ?u" by (intro thread_inv_reg assms(1))
  have "snd (subscribe_all env ctxt subscriptions ?u) = t"
    using assms(2) by (simp add: evp_agent_notifications_register_def Let_def)
  then obtain cs where cs: "t = ?u\<lparr>trace := trace ?u @ cs\<rparr>" "balanced cs"
      "lifecycle env (trace ?u) cs = []"
    using lifecycle_subscribe [of env ctxt subscriptions ?u] by auto
  then show ?thesis using thread_inv_step [OF u _ cs(2,3), of t] by simp
qed

lemma thread_inv_set_context:
  assumes "thread_inv env s0 L A Q P s"
  shows "thread_inv env s0 L A Q P (set_backdoor_context c s)"
  using thread_inv_step [OF assms, of "set_backdoor_context c s"
      "[OS (Call_mutex_lock g_evp_agent_lock), OS (Call_mutex_unlock g_evp_agent_lock)]" "[]"]
    balanced_section [of "[]" g_evp_agent_lock]
  by (simp add: set_backdoor_context_def Let_def mutex_lock_def mutex_unlock_def emit_def elog_wf_def)

text \<open>Rounds of the main loop, one for each answer of \<open>evp_agent_loop\<close>.\<close>

definition loop_calls :: "nat \<Rightarrow> int list \<Rightarrow> (ext_call \<times> int) list" where
  "loop_calls ctxt rs = concat (map (\<lambda>r. [(ESF (Call_EsfPwrMgrSwWdtKeepalive EVP_SW_WDT_ID), 0),
     (EVP (Call_evp_agent_loop ctxt), r)]) rs)"

lemma thread_inv_round:
  assumes "thread_inv env s0 L A Q P s" "agent_contract env" "ctxt \<in> A" "agent_loop_round env ctxt s = (ret, t)"
  shows "thread_inv env s0 L A Q (P @ loop_calls ctxt [ret]) t"
proof -
  obtain e s1 where w: "sw_wdt env (Call_EsfPwrMgrSwWdtKeepalive EVP_SW_WDT_ID) s = (e, s1)" by fastforce
  let ?s2 = "if e \<noteq> kEsfPwrMgrOk env then emit (EVP_AGENT_ERR ''evp-agent.c'' 292
    ''EsfPwrMgrSwWdtKeepalive failed: %d'' [FInt e]) s1 else s1"
  have "thread_inv env s0 L A Q (P @ [(ESF (Call_EsfPwrMgrSwWdtKeepalive EVP_SW_WDT_ID), 0)]) ?s2"
    using thread_inv_wdt [OF assms(1) w] by (simp add: thread_inv_log)
  moreover have l: "evp_lib env ctxt (Call_evp_agent_loop ctxt) ?s2 = (ret, t)"
    using assms(4) w by (simp add: agent_loop_round_def Let_def)
  ultimately show ?thesis
    using thread_inv_lib [OF _ assms(2,3) l] evp_lib_ret [of env ctxt "Call_evp_agent_loop ctxt" ?s2]
    by (fastforce simp: loop_calls_def l)
qed

lemma evp_lib_rest:
  assumes "thread_inv env s0 L A Q P s" "agent_contract env" "ctxt \<in> A" "evp_lib env ctxt call s = (ret, t)"
  shows "agent_rest t = agent_rest s"
proof -
  have "local_step (emit (EVP call) s) t"
    using evp_lib_step(1) [OF assms(2), of s ctxt call] thread_inv_facts [OF assms(1)] assms(3,4) by simp
  from local_step_rest(1) [OF this] show ?thesis by (simp add: edc_frame)
qed

lemma agent_loop_round_rest:
  assumes "thread_inv env s0 L A Q P s" "agent_contract env" "ctxt \<in> A" "agent_loop_round env ctxt s = (ret, t)"
  shows "agent_rest t = agent_rest s"
proof -
  obtain e s1 where w: "sw_wdt env (Call_EsfPwrMgrSwWdtKeepalive EVP_SW_WDT_ID) s = (e, s1)" by fastforce
  let ?s2 = "if e \<noteq> kEsfPwrMgrOk env then emit (EVP_AGENT_ERR ''evp-agent.c'' 292
    ''EsfPwrMgrSwWdtKeepalive failed: %d'' [FInt e]) s1 else s1"
  have "thread_inv env s0 L A Q (P @ lifecycle env (trace s) [ESF (Call_EsfPwrMgrSwWdtKeepalive EVP_SW_WDT_ID)]) ?s2"
    using thread_inv_wdt [OF assms(1) w] by (simp add: thread_inv_log)
  from evp_lib_rest [OF this assms(2,3)] assms(4) w
  have "agent_rest t = agent_rest ?s2" by (simp add: agent_loop_round_def Let_def)
  then show ?thesis using w by (auto simp: sw_wdt_def edc_frame split: if_splits)
qed

lemma loop_calls_Cons: "loop_calls ctxt [r] @ loop_calls ctxt rs = loop_calls ctxt (r # rs)"
  by (simp add: loop_calls_def)

text \<open>If the loop returns, it made a round for each answer \<open>rs\<close>: all answers but the last are 0, the last
  is what it returns, and it returns 0 only when signalled.\<close>

definition loop_done ::
  "'e agent_env_scheme \<Rightarrow> 's agent_state_scheme \<Rightarrow> nat set \<Rightarrow> nat set \<Rightarrow> native_symbol_entry list \<Rightarrow>
   (ext_call \<times> int) list \<Rightarrow> nat \<Rightarrow> int \<Rightarrow> 's agent_state_scheme \<Rightarrow> int list \<Rightarrow> int \<times> 's agent_state_scheme \<Rightarrow> bool" where
  "loop_done env s0 L A Q P ctxt ret s rs r \<longleftrightarrow>
     thread_inv env s0 L A Q (P @ loop_calls ctxt rs) (snd r) \<and> (ret = 0 \<longleftrightarrow> rs \<noteq> []) \<and>
     fst r = last (ret # rs) \<and> (\<forall>x \<in> set (butlast rs). x = 0) \<and>
     (fst r = 0 \<longrightarrow> agent_signalled env (snd r)) \<and> agent_rest (snd r) = agent_rest s"

lemma loop_done_round:
  assumes "loop_done env s0 L A Q (P @ loop_calls ctxt [ret1]) ctxt ret1 s1 rs r" "agent_rest s1 = agent_rest s"
  shows "loop_done env s0 L A Q P ctxt 0 s (ret1 # rs) r"
  using assms unfolding loop_done_def append_assoc loop_calls_Cons by (cases "rs = []") auto

lemma agent_loop_result:
  assumes ret: "agent_loop env ctxt ret s = Some r"
  shows "agent_contract env \<and> ctxt \<in> A \<and> thread_inv env s0 L A Q P s \<longrightarrow>
    (\<exists>rs. loop_done env s0 L A Q P ctxt ret s rs r)"
proof (rule agent_loop.raw_induct [where P = "\<lambda>env ctxt ret s r. \<forall>P. agent_contract env \<and> ctxt \<in> A \<and>
    thread_inv env s0 L A Q P s \<longrightarrow> (\<exists>rs. loop_done env s0 L A Q P ctxt ret s rs r)",
    OF _ ret, THEN spec [of _ P]], intro allI impI, elim conjE)
  fix f and env :: "'b agent_env_scheme" and ctxt ret s r P
  assume IH: "\<And>env ctxt ret s r. f env ctxt ret s = Some r \<Longrightarrow> \<forall>P. agent_contract env \<and> ctxt \<in> A \<and>
      thread_inv env s0 L A Q P s \<longrightarrow> (\<exists>rs. loop_done env s0 L A Q P ctxt ret s rs r)"
    and eq: "(if ret = 0 then let (ret1, s1) = agent_loop_round env ctxt s
        in if agent_signalled env s1 then Some (ret1, s1) else f env ctxt ret1 s1 else Some (ret, s)) = Some r"
    and c: "agent_contract env" "ctxt \<in> A" and inv: "thread_inv env s0 L A Q P s"
  obtain ret1 s1 where rd: "agent_loop_round env ctxt s = (ret1, s1)" by fastforce
  have inv1: "thread_inv env s0 L A Q (P @ loop_calls ctxt [ret1]) s1" by (rule thread_inv_round [OF inv c rd])
  note r1 = agent_loop_round_rest [OF inv c rd]
  consider "ret \<noteq> 0" | "ret = 0" "agent_signalled env s1" | "ret = 0" "\<not> agent_signalled env s1" by blast
  then show "\<exists>rs. loop_done env s0 L A Q P ctxt ret s rs r"
  proof cases
    case 1
    with eq inv show ?thesis by (intro exI [of _ "[]"]) (auto simp: loop_done_def loop_calls_def)
  next
    case 2
    with eq rd inv1 r1 show ?thesis by (intro exI [of _ "[ret1]"]) (auto simp: loop_done_def)
  next
    case 3
    with eq rd have "f env ctxt ret1 s1 = Some r" by simp
    with IH c inv1 obtain rs where "loop_done env s0 L A Q (P @ loop_calls ctxt [ret1]) ctxt ret1 s1 rs r" by blast
    from loop_done_round [OF this r1] 3(1) show ?thesis by blast
  qed
qed

section \<open>The ladder of labels\<close>

lemma thread_inv_trace:
  assumes "thread_inv env s0 L A Q P s"
  obtains cs where "trace s = trace s0 @ cs" "balanced cs" "lifecycle env (trace s0) cs = P"
  using assms by (auto simp: thread_inv_def)

lemma thread_inv_ret: "thread_inv env s0 L A Q P (s\<lparr>g_evp_agent_ret := r\<rparr>) = thread_inv env s0 L A Q P s"
  by (simp add: thread_inv_def heap_wf_def elog_wf_def)

lemma out_free_inv:
  assumes "thread_inv env s0 L A Q P s" "agent_contract env" "ctxt \<in> A"
  shows "thread_inv env s0 L (A - {ctxt}) Q (P @ [(EVP (Call_evp_agent_free ctxt), 0)]) (out_free_evp_agent env ctxt ret s)"
    "g_evp_agent_ret (out_free_evp_agent env ctxt ret s) = ret"
    "g_proxy_cache (out_free_evp_agent env ctxt ret s) = g_proxy_cache s"
    "g_evp_agent_ctxt (out_free_evp_agent env ctxt ret s) = g_evp_agent_ctxt s"
proof -
  obtain r s1 where l: "evp_lib env ctxt (Call_evp_agent_free ctxt) s = (r, s1)" by fastforce
  have i1: "thread_inv env s0 L A Q (P @ [(EVP (Call_evp_agent_free ctxt), 0)]) s1"
    using thread_inv_lib [OF assms l] by simp
  then have "thread_inv env s0 L (A - {ctxt}) Q (P @ [(EVP (Call_evp_agent_free ctxt), 0)])
      (s1\<lparr>agents := agents s1 - {ctxt}, g_evp_agent_ret := ret\<rparr>)"
    by (simp add: thread_inv_def heap_wf_def elog_wf_def)
  from thread_inv_emit [OF this, of "OS (Call_pthread_exit ret)"] l
  show "thread_inv env s0 L (A - {ctxt}) Q (P @ [(EVP (Call_evp_agent_free ctxt), 0)]) (out_free_evp_agent env ctxt ret s)"
    by (simp add: out_free_evp_agent_def Let_def lock_call_def)
  show "g_evp_agent_ret (out_free_evp_agent env ctxt ret s) = ret"
    by (simp add: out_free_evp_agent_def Let_def l emit_def)
  have "local_step (emit (EVP (Call_evp_agent_free ctxt)) s) s1"
    using evp_lib_step(1) [OF assms(2), of s ctxt "Call_evp_agent_free ctxt"] thread_inv_facts [OF assms(1)] assms(3) l
    by simp
  from local_step_rest(1) [OF this] have "g_proxy_cache s1 = g_proxy_cache s \<and> g_evp_agent_ctxt s1 = g_evp_agent_ctxt s"
    by (simp add: edc_frame) (simp add: agent_rest_def)
  then show "g_proxy_cache (out_free_evp_agent env ctxt ret s) = g_proxy_cache s"
    "g_evp_agent_ctxt (out_free_evp_agent env ctxt ret s) = g_evp_agent_ctxt s"
    by (simp_all add: out_free_evp_agent_def Let_def l emit_def)
qed

text \<open>
  What holds when the thread ends: the context is given back, the proxy cache is empty and its
  memory released.
\<close>

definition thread_done ::
  "'e agent_env_scheme \<Rightarrow> 's agent_state_scheme \<Rightarrow> nat set \<Rightarrow> nat set \<Rightarrow> native_symbol_entry list \<Rightarrow>
   (ext_call \<times> int) list \<Rightarrow> int \<Rightarrow> 's agent_state_scheme \<Rightarrow> bool" where
  "thread_done env s0 L A Q P ret s \<longleftrightarrow> thread_inv env s0 L A Q P s \<and> cache_empty (g_proxy_cache s) \<and> g_evp_agent_ret s = ret"

lemma out_free_done:
  assumes "thread_inv env s0 L A Q P s" "agent_contract env" "ctxt \<in> A" "cache_empty (g_proxy_cache s)"
  shows "thread_done env s0 L (A - {ctxt}) Q (P @ [(EVP (Call_evp_agent_free ctxt), 0)]) ret (out_free_evp_agent env ctxt ret s)"
  using out_free_inv [OF assms(1-3), of ret] assms(4) by (simp add: thread_done_def)

lemma out_deinit_done:
  assumes "thread_inv env s0 L A Q P s" "agent_contract env" "ctxt \<in> A"
  shows "thread_done env s0 L (A - {ctxt}) Q (P @ [(EVP (Call_evp_agent_free ctxt), 0)]) ret (out_deinit_proxy_cache env ctxt ret s)"
  unfolding out_deinit_proxy_cache_def
  by (intro out_free_done thread_inv_deinit [OF assms(1)] assms(2,3))

lemma out_stop_done:
  assumes "thread_inv env s0 L A Q P s" "agent_contract env" "ctxt \<in> A"
  shows "thread_done env s0 L (A - {ctxt}) Q
    (P @ [(EVP (Call_evp_agent_stop ctxt), 0), (EVP (Call_evp_agent_free ctxt), 0)]) ret (out_stop_evp_agent env ctxt ret s)"
proof -
  obtain r s1 where l: "evp_lib env ctxt (Call_evp_agent_stop ctxt) s = (r, s1)" by fastforce
  from out_deinit_done [OF thread_inv_lib [OF assms l] assms(2,3), of ret] l show ?thesis
    by (simp add: out_stop_evp_agent_def)
qed

lemma out_disconnect_done:
  assumes "thread_inv env s0 L A Q P s" "agent_contract env" "ctxt \<in> A"
  shows "thread_done env s0 L (A - {ctxt}) Q
    (P @ [(EVP (Call_evp_agent_disconnect ctxt), 0), (EVP (Call_evp_agent_stop ctxt), 0), (EVP (Call_evp_agent_free ctxt), 0)])
    ret (out_disconnect_evp_agent env ctxt ret s)"
proof -
  obtain r s1 where l: "evp_lib env ctxt (Call_evp_agent_disconnect ctxt) s = (r, s1)" by fastforce
  from out_stop_done [OF thread_inv_lib [OF assms l] assms(2,3), of ret] l show ?thesis
    by (simp add: out_disconnect_evp_agent_def)
qed

lemma out_disconnect_ctxt:
  assumes "thread_inv env s0 L A Q P s" "agent_contract env" "ctxt \<in> A"
  shows "g_evp_agent_ctxt (out_disconnect_evp_agent env ctxt ret s) = g_evp_agent_ctxt s"
proof -
  obtain r s1 where d: "evp_lib env ctxt (Call_evp_agent_disconnect ctxt) s = (r, s1)" by fastforce
  note i1 = thread_inv_lib [OF assms d]
  obtain r' s2 where st: "evp_lib env ctxt (Call_evp_agent_stop ctxt) s1 = (r', s2)" by fastforce
  note i2 = thread_inv_deinit(1) [OF thread_inv_lib [OF i1 assms(2,3) st]]
  have "g_evp_agent_ctxt (evp_agent_esf_deinit_proxy_cache s2) = g_evp_agent_ctxt s2" by (rule deinit_rest)
  with out_free_inv(4) [OF i2 assms(2,3), of ret] evp_lib_rest [OF assms d] evp_lib_rest [OF i1 assms(2,3) st] d st
  show ?thesis
    by (simp add: out_disconnect_evp_agent_def out_stop_evp_agent_def out_deinit_proxy_cache_def agent_rest_def)
qed

section \<open>The ways the thread ends\<close>

text \<open>Each way with the answer that decided it: \<open>Flush_failed\<close> says which registrations were tried,
  \<open>Loop_ended\<close> what each round answered.\<close>

datatype thread_exit =
    Not_named | Setup_failed | Start_failed int | Flush_failed "native_key list" | Connect_failed int
  | Watchdog_failed int | Loop_ended "int list"

text \<open>
  The life-cycle calls of each way with their answers, for a queue of native symbols \<open>ks\<close>: the
  symbols are handed to the runtime after the start and before the connection, and everything
  acquired is released in the reverse order.
\<close>

abbreviation setup_call :: ext_call where "setup_call \<equiv> EVP (Call_evp_agent_setup ''evp_agent'')"

definition started_calls :: "nat \<Rightarrow> int \<Rightarrow> native_key list \<Rightarrow> (ext_call \<times> int) list" where
  "started_calls ctxt flushed ks =
     [(setup_call, int ctxt), (EVP (Call_evp_agent_start ctxt), 0)] @ flush_answers flushed ks"

fun thread_calls :: "'e agent_env_scheme \<Rightarrow> nat \<Rightarrow> native_key list \<Rightarrow> thread_exit \<Rightarrow> (ext_call \<times> int) list" where
  "thread_calls env ctxt ks Not_named = []"
| "thread_calls env ctxt ks Setup_failed = [(setup_call, int ctxt), (EVP (Call_evp_agent_free ctxt), 0)]"
| "thread_calls env ctxt ks (Start_failed r) =
     [(setup_call, int ctxt), (EVP (Call_evp_agent_start ctxt), r), (EVP (Call_evp_agent_free ctxt), 0)]"
| "thread_calls env ctxt ks (Flush_failed tried) =
     started_calls ctxt (-1) tried @ [(EVP (Call_evp_agent_stop ctxt), 0), (EVP (Call_evp_agent_free ctxt), 0)]"
| "thread_calls env ctxt ks (Connect_failed r) =
     started_calls ctxt 0 ks @ [(EVP (Call_evp_agent_connect ctxt), r),
      (EVP (Call_evp_agent_stop ctxt), 0), (EVP (Call_evp_agent_free ctxt), 0)]"
| "thread_calls env ctxt ks (Watchdog_failed w) =
     started_calls ctxt 0 ks @ [(EVP (Call_evp_agent_connect ctxt), 0),
      (ESF (Call_EsfPwrMgrSwWdtStart EVP_SW_WDT_ID), w),
      (EVP (Call_evp_agent_disconnect ctxt), 0), (EVP (Call_evp_agent_stop ctxt), 0), (EVP (Call_evp_agent_free ctxt), 0)]"
| "thread_calls env ctxt ks (Loop_ended rs) =
     started_calls ctxt 0 ks @ [(EVP (Call_evp_agent_connect ctxt), 0),
      (ESF (Call_EsfPwrMgrSwWdtStart EVP_SW_WDT_ID), kEsfPwrMgrOk env)] @
     loop_calls ctxt rs @
     [(ESF (Call_EsfPwrMgrSwWdtStop EVP_SW_WDT_ID), 0),
      (EVP (Call_evp_agent_disconnect ctxt), 0), (EVP (Call_evp_agent_stop ctxt), 0), (EVP (Call_evp_agent_free ctxt), 0)]"

text \<open>
  The exit code of each way: the answer of the call that failed, \<open>-1\<close> for a refused symbol, 0 when
  the watchdog could not be started, and after the main loop the answer of its last round, all
  earlier rounds having answered 0.
\<close>

fun exit_code_ok :: "'e agent_env_scheme \<Rightarrow> native_key list \<Rightarrow> thread_exit \<Rightarrow> int \<Rightarrow> bool" where
  "exit_code_ok env ks Not_named ret = (ret \<noteq> 0)"
| "exit_code_ok env ks Setup_failed ret = (ret \<noteq> 0)"
| "exit_code_ok env ks (Start_failed r) ret = (ret = r \<and> r \<noteq> 0)"
| "exit_code_ok env ks (Flush_failed tried) ret = (ret = -1 \<and> prefix tried ks \<and> tried \<noteq> [])"
| "exit_code_ok env ks (Connect_failed r) ret = (ret = r \<and> r \<noteq> 0)"
| "exit_code_ok env ks (Watchdog_failed w) ret = (ret = 0 \<and> w \<noteq> kEsfPwrMgrOk env)"
| "exit_code_ok env ks (Loop_ended rs) ret = (rs \<noteq> [] \<and> ret = last rs \<and> (\<forall>r \<in> set (butlast rs). r = 0))"

fun queue_flushed :: "thread_exit \<Rightarrow> bool" where
  "queue_flushed Not_named = False"
| "queue_flushed Setup_failed = False"
| "queue_flushed (Start_failed r) = False"
| "queue_flushed _ = True"

text \<open>The queue is flushed exactly if the agent was started successfully.\<close>

lemma started_calls_start: "(EVP (Call_evp_agent_start ctxt), 0) \<in> set (started_calls ctxt fl ks)"
  by (simp add: started_calls_def)

lemma queue_flushed_started:
  "exit_code_ok env ks e ret \<Longrightarrow>
     queue_flushed e \<longleftrightarrow> (\<exists>c. (EVP (Call_evp_agent_start c), 0) \<in> set (thread_calls env ctxt ks e))"
  by (cases e) (auto intro: started_calls_start)

text \<open>A shutdown was requested: before the thread started, or at some point of its run.\<close>

definition shutdown_seen :: "'e agent_env_scheme \<Rightarrow> 's agent_state_scheme \<Rightarrow> 's agent_state_scheme \<Rightarrow> bool" where
  "shutdown_seen env s t \<longleftrightarrow> g_evp_agent_signalled s \<or>
     (\<exists>h. prefix (trace s) h \<and> prefix h (trace t) \<and> env_signalled env h)"

definition loop_end_ok ::
  "'e agent_env_scheme \<Rightarrow> 's agent_state_scheme \<Rightarrow> nat \<Rightarrow> thread_exit \<Rightarrow> 's agent_state_scheme \<Rightarrow> bool" where
  "loop_end_ok env s0 ctxt e t \<longleftrightarrow> (\<forall>rs. e = Loop_ended rs \<longrightarrow>
     g_evp_agent_ctxt t = Some ctxt \<and> (g_evp_agent_ret t = 0 \<longrightarrow> shutdown_seen env s0 t))"

lemma thread_inv_refl: "thread_inv env s0 L A Q P s \<Longrightarrow> thread_inv env s L A Q [] s"
  by (auto simp: thread_inv_def intro: exI [of _ "[]"])

lemma watched_loop_done:
  assumes "thread_inv env s0 L A Q P s" "agent_contract env" "ctxt \<in> A"
    and "evp_agent_thread_watched env ctxt s = Some t"
    and "P = started_calls ctxt 0 ks @ [(EVP (Call_evp_agent_connect ctxt), 0)]"
    and "sw_wdt env (Call_EsfPwrMgrSwWdtStart EVP_SW_WDT_ID) s = (kEsfPwrMgrOk env, s1)"
  shows "\<exists>rs s3. thread_done env s0 L (A - {ctxt}) Q (thread_calls env ctxt ks (Loop_ended rs)) (g_evp_agent_ret t) t \<and>
    exit_code_ok env ks (Loop_ended rs) (g_evp_agent_ret t) \<and> loop_end_ok env s0 ctxt (Loop_ended rs) t \<and>
    agent_loop env ctxt 0 (set_backdoor_context (Some ctxt) s1) = Some (g_evp_agent_ret t, s3)"
proof -
  let ?start = "Call_EsfPwrMgrSwWdtStart EVP_SW_WDT_ID"
  let ?s2 = "set_backdoor_context (Some ctxt) s1"
  let ?P1 = "P @ [(ESF ?start, kEsfPwrMgrOk env)]"
  have "env_SwWdt env (trace s) ?start = kEsfPwrMgrOk env" using assms(6) by (simp add: sw_wdt_def)
  then have i1: "thread_inv env s0 L A Q ?P1 s1" using thread_inv_wdt [OF assms(1,6)] by simp
  obtain ret s3 where l: "agent_loop env ctxt 0 ?s2 = Some (ret, s3)"
    using assms(4,6) by (auto simp: evp_agent_thread_watched_def split: option.splits)
  obtain rs where "loop_done env s0 L A Q ?P1 ctxt 0 ?s2 rs (ret, s3)"
    using agent_loop_result [OF l, of A s0 L Q ?P1] thread_inv_set_context [OF i1] assms(2,3) by auto
  then have rs: "thread_inv env s0 L A Q (?P1 @ loop_calls ctxt rs) s3" "rs \<noteq> []" "ret = last rs"
    "\<forall>r \<in> set (butlast rs). r = 0" "ret = 0 \<longrightarrow> agent_signalled env s3" "agent_rest s3 = agent_rest ?s2"
    by (auto simp: loop_done_def)
  obtain err s4 where w: "sw_wdt env (Call_EsfPwrMgrSwWdtStop EVP_SW_WDT_ID) s3 = (err, s4)" by fastforce
  let ?s5 = "if err \<noteq> kEsfPwrMgrOk env then emit (EVP_AGENT_ERR ''evp-agent.c'' 302
    ''EsfPwrMgrSwWdtStop failed: %d'' [FInt err]) s4 else s4"
  have i5: "thread_inv env s0 L A Q ((?P1 @ loop_calls ctxt rs) @ [(ESF (Call_EsfPwrMgrSwWdtStop EVP_SW_WDT_ID), 0)]) ?s5"
    using thread_inv_wdt [OF rs(1) w] by (simp add: thread_inv_log)
  have t: "t = out_disconnect_evp_agent env ctxt ret ?s5"
    using assms(4,6) l w by (simp add: evp_agent_thread_watched_def Let_def)
  have c: "g_evp_agent_ctxt ?s5 = Some ctxt"
    using rs(6) w by (auto simp: agent_rest_def set_backdoor_context_def Let_def mutex_lock_def mutex_unlock_def
        sw_wdt_def emit_def)
  have "prefix (trace s3) (trace ?s5)" using w by (auto simp: sw_wdt_def)
  moreover have "prefix (trace ?s5) (trace t)"
    using out_disconnect_done [OF thread_inv_refl [OF i5] assms(2,3), of ret]
    unfolding t thread_done_def by (auto elim!: thread_inv_trace)
  ultimately have "prefix (trace s3) (trace t)" by (rule prefix_order.trans)
  moreover have "prefix (trace s0) (trace s3)" using rs(1) by (auto elim!: thread_inv_trace)
  ultimately have "shutdown_seen env s0 t" if "ret = 0"
    using rs(5) that thread_inv_facts(5) [OF rs(1)] by (auto simp: agent_signalled_def shutdown_seen_def)
  with t out_disconnect_done [OF i5 assms(2,3), of ret] assms(5) rs(2-4) l c out_disconnect_ctxt [OF i5 assms(2,3), of ret]
  show ?thesis by (intro exI [of _ rs] exI [of _ s3]) (simp add: thread_done_def loop_end_ok_def)
qed

lemma watched_done:
  assumes "thread_inv env s0 L A Q P s" "agent_contract env" "ctxt \<in> A"
    and "evp_agent_thread_watched env ctxt s = Some t"
    and "P = started_calls ctxt 0 ks @ [(EVP (Call_evp_agent_connect ctxt), 0)]"
  shows "\<exists>e. thread_done env s0 L (A - {ctxt}) Q (thread_calls env ctxt ks e) (g_evp_agent_ret t) t \<and>
    exit_code_ok env ks e (g_evp_agent_ret t) \<and> queue_flushed e \<and> loop_end_ok env s0 ctxt e t"
proof -
  let ?start = "Call_EsfPwrMgrSwWdtStart EVP_SW_WDT_ID"
  obtain err s1 where w: "sw_wdt env ?start s = (err, s1)" by fastforce
  show ?thesis
  proof (cases "err = kEsfPwrMgrOk env")
    case False
    have "env_SwWdt env (trace s) ?start = err" using w by (simp add: sw_wdt_def)
    then have i1: "thread_inv env s0 L A Q (P @ [(ESF ?start, err)]) s1"
      using thread_inv_wdt [OF assms(1) w] by simp
    from assms(4) w False have "t = out_disconnect_evp_agent env ctxt 0 s1"
      by (simp add: evp_agent_thread_watched_def)
    with out_disconnect_done [OF i1 assms(2,3), of 0] assms(5) False show ?thesis
      by (intro exI [of _ "Watchdog_failed err"]) (simp add: thread_done_def loop_end_ok_def)
  next
    case True
    from watched_loop_done [OF assms w [unfolded True]] show ?thesis by (metis queue_flushed.simps(7))
  qed
qed

text \<open>The body in two halves: up to the start of the agent, and from the flush on.\<close>

definition thread_body_started ::
  "'e agent_env_scheme \<Rightarrow> nat \<Rightarrow> 's agent_state_scheme \<Rightarrow> 's agent_state_scheme option" where
  "thread_body_started env ctxt s5 =
     (let (ret, s6) = evp_agent_flush_wasm_native_symbols env s5 in
      if ret \<noteq> 0 then Some (out_stop_evp_agent env ctxt ret s6)
      else let (ret, s7) = evp_lib env ctxt (Call_evp_agent_connect ctxt) s6 in
      if ret \<noteq> 0 then Some (out_stop_evp_agent env ctxt ret s7)
      else evp_agent_thread_watched env ctxt s7)"

text \<open>Each half ends the thread in one of the early ways or hands over to the next.\<close>

lemma started_cases:
  assumes "thread_inv env s0 L A Q [(setup_call, int ctxt), (EVP (Call_evp_agent_start ctxt), 0)] s"
    and "agent_contract env" "ctxt \<in> A"
    and "distinct (map ne_block Q)" "ne_block ` set Q \<subseteq> L"
  obtains (ended) e t where "thread_body_started env ctxt s = Some t" "exit_code_ok env (map entry_key Q) e (g_evp_agent_ret t)"
      "(\<exists>r. e = Connect_failed r) \<or> (\<exists>tried. e = Flush_failed tried)"
      "thread_done env s0 (L - ne_block ` set Q) (A - {ctxt}) [] (thread_calls env ctxt (map entry_key Q) e) (g_evp_agent_ret t) t"
  | (watched) s7 where "thread_body_started env ctxt s = evp_agent_thread_watched env ctxt s7"
      "thread_inv env s0 (L - ne_block ` set Q) A []
        (started_calls ctxt 0 (map entry_key Q) @ [(EVP (Call_evp_agent_connect ctxt), 0)]) s7"
proof -
  let ?L = "L - ne_block ` set Q"
  obtain r6 s6 where f: "evp_agent_flush_wasm_native_symbols env s = (r6, s6)" by fastforce
  obtain ks where i6: "thread_inv env s0 ?L A [] (started_calls ctxt r6 ks) s6" and ks: "prefix ks (map entry_key Q)"
    "r6 = 0 \<and> ks = map entry_key Q \<or> r6 = -1 \<and> ks \<noteq> []"
    using thread_inv_flush [OF assms(1,4,5) f] unfolding started_calls_def by blast
  obtain r7 s7 where l: "evp_lib env ctxt (Call_evp_agent_connect ctxt) s6 = (r7, s7)" by fastforce
  have i7: "thread_inv env s0 ?L A [] (started_calls ctxt r6 ks @ [(EVP (Call_evp_agent_connect ctxt), r7)]) s7"
    using thread_inv_lib [OF i6 assms(2,3) l] evp_lib_ret [of env ctxt "Call_evp_agent_connect ctxt" s6]
    by (simp add: l)
  have eq: "thread_body_started env ctxt s = (if r6 \<noteq> 0 then Some (out_stop_evp_agent env ctxt r6 s6)
      else if r7 \<noteq> 0 then Some (out_stop_evp_agent env ctxt r7 s7) else evp_agent_thread_watched env ctxt s7)"
    by (simp only: thread_body_started_def f l prod.case Let_def)
  consider "r6 \<noteq> 0" | "r6 = 0" "r7 \<noteq> 0" | "r6 = 0" "r7 = 0" by blast
  then show thesis
  proof cases
    case 1
    with ks(2) have "r6 = -1" "ks \<noteq> []" by auto
    with out_stop_done [OF i6 assms(2,3), of r6] eq ks(1) show ?thesis
      by (intro ended [of "out_stop_evp_agent env ctxt r6 s6" "Flush_failed ks"]) (simp_all add: thread_done_def)
  next
    case 2
    with out_stop_done [OF i7 assms(2,3), of r7] eq ks(2) show ?thesis
      by (intro ended [of "out_stop_evp_agent env ctxt r7 s7" "Connect_failed r7"]) (simp_all add: thread_done_def)
  next
    case 3
    with i7 eq ks(2) show ?thesis by (intro watched) simp_all
  qed
qed

lemma body_cases:
  assumes "thread_inv env s0 L A Q [(setup_call, int ctxt)] s" "agent_contract env" "ctxt \<in> A" "cache_empty (g_proxy_cache s)"
  obtains (ended) e t where "evp_agent_thread_body env ctxt s = Some t" "exit_code_ok env ks e (g_evp_agent_ret t)"
      "\<not> queue_flushed e" "loop_end_ok env s0 ctxt e t"
      "thread_done env s0 L (A - {ctxt}) Q (thread_calls env ctxt ks e) (g_evp_agent_ret t) t"
  | (started) s5 where "evp_agent_thread_body env ctxt s = thread_body_started env ctxt s5"
      "thread_inv env s0 L A Q [(setup_call, int ctxt), (EVP (Call_evp_agent_start ctxt), 0)] s5"
proof -
  have esf: "esf_contract env" using assms(2) by (simp add: agent_contract_def)
  obtain r1 s1 where l1: "evp_lib env ctxt (Call_evp_agent_platform_register ctxt) s = (r1, s1)" by fastforce
  obtain r2 s2 where l2: "agent_status_handler env (Some ''disconnected'') s1 = (r2, s2)" by fastforce
  obtain r3 s3 where l3: "evp_agent_esf_init_proxy_cache env s2 = (r3, s3)" by fastforce
  obtain r4 s4 where l4: "evp_agent_notifications_register env ctxt s3 = (r4, s4)" by fastforce
  obtain r5 s5 where l5: "evp_lib env ctxt (Call_evp_agent_start ctxt) s4 = (r5, s5)" by fastforce
  let ?s1 = "emit (ESF (Call_UtilityLogWriteDLog kUtilityLogDlogLevelError
          ''Failed to register platform: %d'' [FInt r1])) s1"
  have i1: "thread_inv env s0 L A Q [(setup_call, int ctxt)] s1"
    using thread_inv_lib [OF assms(1-3) l1] by simp
  have e1: "cache_empty (g_proxy_cache s1)" using evp_lib_cache [OF assms(1-3) l1] assms(4) by simp
  have i1': "thread_inv env s0 L A Q [(setup_call, int ctxt)] ?s1"
    using thread_inv_emit [OF i1, of "ESF (Call_UtilityLogWriteDLog kUtilityLogDlogLevelError
          ''Failed to register platform: %d'' [FInt r1])"] by simp
  have e1': "cache_empty (g_proxy_cache ?s1)" using e1 by (simp add: emit_def)
  have q2: "local_step s1 s2"
    using agent_status_local_step [OF esf thread_inv_facts(1) [OF i1], of "Some ''disconnected''"] l2 by simp
  note i2 = thread_inv_local [OF i1 q2]
  have e2: "cache_empty (g_proxy_cache s2)" using q2 e1 by (simp add: local_step_def kept_def)
  note i3 = thread_inv_init_proxy [OF i2 e2 esf l3]
  note i4 = thread_inv_register [OF i3(1) l4]
  have i5: "thread_inv env s0 L A Q [(setup_call, int ctxt), (EVP (Call_evp_agent_start ctxt), r5)] s5"
    using thread_inv_lib [OF i4 assms(2,3) l5] evp_lib_ret [of env ctxt "Call_evp_agent_start ctxt" s4]
    by (simp add: l5)
  have eq: "evp_agent_thread_body env ctxt s =
      (if r1 \<noteq> 0 then Some (out_free_evp_agent env ctxt r1 ?s1)
       else if r2 \<noteq> 0 then Some (out_free_evp_agent env ctxt r2 s2)
       else if r3 \<noteq> 0 then Some (out_free_evp_agent env ctxt r3 s3)
       else if r4 \<noteq> 0 then Some (out_deinit_proxy_cache env ctxt r4 s4)
       else if r5 \<noteq> 0 then Some (out_deinit_proxy_cache env ctxt r5 s5)
       else thread_body_started env ctxt s5)"
    by (simp only: evp_agent_thread_body_def thread_body_started_def l1 l2 l3 l4 l5 prod.case Let_def)
  have fail: thesis if "evp_agent_thread_body env ctxt s = Some t" "r \<noteq> 0" "e \<in> {Setup_failed, Start_failed r}"
    "thread_done env s0 L (A - {ctxt}) Q (thread_calls env ctxt ks e) r t" for e r t
    using that by (intro ended [of t e]) (auto simp: thread_done_def loop_end_ok_def)
  consider "r1 \<noteq> 0" | "r1 = 0" "r2 \<noteq> 0" | "r1 = 0" "r2 = 0" "r3 \<noteq> 0" | "r1 = 0" "r2 = 0" "r3 = 0" "r4 \<noteq> 0"
    | "r1 = 0" "r2 = 0" "r3 = 0" "r4 = 0" "r5 \<noteq> 0" | "r1 = 0" "r2 = 0" "r3 = 0" "r4 = 0" "r5 = 0" by blast
  then show thesis
  proof cases
    case 1
    with eq out_free_done [OF i1' assms(2,3) e1', of r1] show ?thesis by (intro fail [where e = Setup_failed]) simp_all
  next
    case 2
    with eq out_free_done [OF i2 assms(2,3) e2, of r2] show ?thesis by (intro fail [where e = Setup_failed]) simp_all
  next
    case 3
    with eq out_free_done [OF i3(1) assms(2,3) i3(2), of r3] show ?thesis
      by (intro fail [where e = Setup_failed]) simp_all
  next
    case 4
    with eq out_deinit_done [OF i4 assms(2,3), of r4] show ?thesis by (intro fail [where e = Setup_failed]) simp_all
  next
    case 5
    with eq out_deinit_done [OF i5 assms(2,3), of r5] show ?thesis by (intro fail [where e = "Start_failed r5"]) simp_all
  next
    case 6
    with eq i5 show ?thesis by (intro started) simp_all
  qed
qed

lemma body_done:
  assumes "thread_inv env s0 L A Q [(setup_call, int ctxt)] s" "agent_contract env" "ctxt \<in> A" "cache_empty (g_proxy_cache s)"
    and "distinct (map ne_block Q)" "ne_block ` set Q \<subseteq> L" "evp_agent_thread_body env ctxt s = Some t"
  shows "\<exists>e. thread_done env s0 (if queue_flushed e then L - ne_block ` set Q else L) (A - {ctxt})
      (if queue_flushed e then [] else Q) (thread_calls env ctxt (map entry_key Q) e) (g_evp_agent_ret t) t \<and>
    exit_code_ok env (map entry_key Q) e (g_evp_agent_ret t) \<and> loop_end_ok env s0 ctxt e t"
  using assms(1-4)
proof (cases rule: body_cases [where ks = "map entry_key Q"])
  case (ended e t')
  with assms(7) show ?thesis by (intro exI [of _ e]) auto
next
  case (started s5)
  from started(2) assms(2,3,5,6) show ?thesis
  proof (cases rule: started_cases)
    case (ended e t')
    with started(1) assms(7) show ?thesis by (intro exI [of _ e]) (auto simp: loop_end_ok_def)
  next
    case (watched s7)
    with started(1) assms(7) have "evp_agent_thread_watched env ctxt s7 = Some t" by simp
    from watched_done [OF watched(2) assms(2,3) this refl] show ?thesis by auto
  qed
qed

lemma thread_inv_start:
  assumes "heap_wf s" "elog_wf s" "cache_empty (g_proxy_cache s)"
  shows "thread_inv env s (live s) (agents s) (g_wasm_native_symbols s) [] (s\<lparr>g_evp_agent_started := True\<rparr>)"
  using assms by (auto simp: thread_inv_def heap_wf_def elog_wf_def cache_empty_ptrs intro: exI [of _ "[]"])

lemma thread_inv_set_up:
  assumes "heap_wf s" "elog_wf s" "cache_empty (g_proxy_cache s)"
    and "c = env_evp_agent_setup env (trace s @ [OS (Call_pthread_setname_np ''EVP Agent'')])"
  shows "thread_inv env s (live s) (insert c (agents s)) (g_wasm_native_symbols s) [(setup_call, int c)]
      ((emit setup_call (emit (OS (Call_pthread_setname_np ''EVP Agent'')) (s\<lparr>g_evp_agent_started := True\<rparr>)))
        \<lparr>agents := insert c (agents s)\<rparr>)"
    "cache_empty (g_proxy_cache ((emit setup_call (emit (OS (Call_pthread_setname_np ''EVP Agent''))
        (s\<lparr>g_evp_agent_started := True\<rparr>)))\<lparr>agents := insert c (agents s)\<rparr>))"
proof -
  have "thread_inv env s (live s) (agents s) (g_wasm_native_symbols s) [(setup_call, int c)]
      (emit setup_call (emit (OS (Call_pthread_setname_np ''EVP Agent'')) (s\<lparr>g_evp_agent_started := True\<rparr>)))"
    using thread_inv_emit [OF thread_inv_emit [OF thread_inv_start [OF assms(1-3)],
        of "OS (Call_pthread_setname_np ''EVP Agent'')"], of setup_call] by (simp add: lock_call_def assms(4))
  then show "thread_inv env s (live s) (insert c (agents s)) (g_wasm_native_symbols s) [(setup_call, int c)]
      ((emit setup_call (emit (OS (Call_pthread_setname_np ''EVP Agent'')) (s\<lparr>g_evp_agent_started := True\<rparr>)))
        \<lparr>agents := insert c (agents s)\<rparr>)"
    by (simp add: thread_inv_def heap_wf_def elog_wf_def)
  show "cache_empty (g_proxy_cache ((emit setup_call (emit (OS (Call_pthread_setname_np ''EVP Agent''))
        (s\<lparr>g_evp_agent_started := True\<rparr>)))\<lparr>agents := insert c (agents s)\<rparr>))"
    using assms(3) by (simp add: emit_def)
qed

text \<open>The whole thread. \<open>evp_agent_setup\<close> returns a context that is not in use.\<close>

lemma thread_done_thread:
  assumes "agent_contract env" "queue_wf s" "elog_wf s" "cache_empty (g_proxy_cache s)"
    and "\<And>h. env_evp_agent_setup env h \<notin> agents s" "evp_agent_thread env s = Some t"
  shows "\<exists>e ctxt. thread_done env s (if queue_flushed e then live s - queue_blocks s else live s) (agents s)
      (if queue_flushed e then [] else g_wasm_native_symbols s) (thread_calls env ctxt (queue_keys s) e) (g_evp_agent_ret t) t \<and>
    exit_code_ok env (queue_keys s) e (g_evp_agent_ret t) \<and> (e = Not_named \<or> ctxt \<notin> agents s) \<and>
    loop_end_ok env s ctxt e t"
proof -
  have wf: "heap_wf s" "distinct (map ne_block (g_wasm_native_symbols s))" "queue_blocks s \<subseteq> live s"
    using assms(2) by (simp_all add: queue_wf_def)
  let ?s1 = "s\<lparr>g_evp_agent_started := True\<rparr>"
  let ?s2 = "emit (OS (Call_pthread_setname_np ''EVP Agent'')) ?s1"
  note i1 = thread_inv_start [OF wf(1) assms(3,4)]
  have i2: "thread_inv env s (live s) (agents s) (g_wasm_native_symbols s) [] ?s2"
    using thread_inv_emit [OF i1, of "OS (Call_pthread_setname_np ''EVP Agent'')"]
    by (simp add: lock_call_def)
  have c2: "cache_empty (g_proxy_cache ?s2)" using assms(4) by (simp add: emit_def)
  show ?thesis
  proof (cases "env_pthread_setname_np env (trace s) = 0")
    case False
    let ?r = "env_pthread_setname_np env (trace s)"
    let ?s3 = "(emit (EVP_AGENT_ERR ''evp-agent.c'' 235 ''failed to set threadname'' []) ?s2)\<lparr>g_evp_agent_ret := ?r\<rparr>"
    have "thread_inv env s (live s) (agents s) (g_wasm_native_symbols s) [] ?s3"
      using thread_inv_log [OF i2] by (simp only: thread_inv_ret)
    from thread_inv_emit [OF this, of "OS (Call_pthread_exit ?r)"]
    have "thread_inv env s (live s) (agents s) (g_wasm_native_symbols s) [] (emit (OS (Call_pthread_exit ?r)) ?s3)"
      by (simp add: lock_call_def)
    moreover have "t = emit (OS (Call_pthread_exit ?r)) ?s3"
      using assms(6) False by (simp add: evp_agent_thread_def Let_def)
    ultimately show ?thesis
      using False c2 by (intro exI [of _ Not_named]) (simp add: thread_done_def loop_end_ok_def emit_def)
  next
    case True
    let ?c = "env_evp_agent_setup env (trace ?s2)"
    let ?s3 = "(emit setup_call ?s2)\<lparr>agents := insert ?c (agents s)\<rparr>"
    have c: "?c = env_evp_agent_setup env (trace s @ [OS (Call_pthread_setname_np ''EVP Agent'')])" by simp
    note i3 = thread_inv_set_up [OF wf(1) assms(3,4) c]
    have b: "evp_agent_thread_body env ?c ?s3 = Some t"
      using assms(6) True by (simp add: evp_agent_thread_def Let_def emit_def)
    from body_done [OF i3(1) assms(1) insertI1 i3(2) wf(2) wf(3) [unfolded queue_blocks_def] b] obtain e where
      "thread_done env s (if queue_flushed e then live s - queue_blocks s else live s) (insert ?c (agents s) - {?c})
        (if queue_flushed e then [] else g_wasm_native_symbols s) (thread_calls env ?c (queue_keys s) e) (g_evp_agent_ret t) t"
      "exit_code_ok env (queue_keys s) e (g_evp_agent_ret t)" "loop_end_ok env s ?c e t"
      by (auto simp only: queue_blocks_def queue_keys_def)
    moreover have "insert ?c (agents s) - {?c} = agents s" "?c \<notin> agents s" using assms(5) by blast+
    ultimately show ?thesis by (intro exI [of _ e] exI [of _ ?c]) (simp only: simp_thms)
  qed
qed

section \<open>Termination\<close>

fun is_loop_call :: "ext_call \<Rightarrow> bool" where
  "is_loop_call (EVP (Call_evp_agent_loop c)) = True"
| "is_loop_call _ = False"

definition loops :: "history \<Rightarrow> nat" where
  "loops h = length (filter is_loop_call h)"

lemma loops_append [simp]: "loops (xs @ ys) = loops xs + loops ys"
  by (simp add: loops_def)

lemma loops_Cons: "loops (c # h) = (if is_loop_call c then 1 else 0) + loops h"
  by (simp add: loops_def)

lemma loops_started [simp]: "loops (map fst (started_calls ctxt fl ks)) = 0" "loops [] = 0"
  by (simp_all add: loops_def started_calls_def flush_answers_def native_call_def filter_empty_conv)

lemma loops_loop_calls [simp]: "loops (map fst (loop_calls ctxt rs)) = length rs"
  by (induction rs) (simp_all add: loop_calls_def loops_def)

lemma loop_is_lifecycle: "is_loop_call c \<Longrightarrow> lifecycle_call c"
  by (cases c rule: is_loop_call.cases) auto

lemma loops_lifecycle: "loops (map fst (lifecycle env h cs)) = loops cs"
  by (induction cs arbitrary: h) (auto simp: loops_Cons loop_is_lifecycle)

text \<open>A shutdown is requested after at most \<open>N\<close> rounds.\<close>

definition signalled_by :: "'e agent_env_scheme \<Rightarrow> nat \<Rightarrow> bool" where
  "signalled_by env N \<longleftrightarrow> (\<forall>h. N \<le> loops h \<longrightarrow> env_signalled env h)"

lemma agent_loop_returns:
  assumes "agent_contract env" "ctxt \<in> A" "signalled_by env N"
  shows "thread_inv env s0 L A Q P s \<Longrightarrow> N \<le> loops (map fst P) + k \<Longrightarrow> \<exists>r. agent_loop env ctxt ret s = Some r"
proof (induction k arbitrary: P s ret)
  case 0
  obtain ret1 s1 where rd: "agent_loop_round env ctxt s = (ret1, s1)" by fastforce
  have "thread_inv env s0 L A Q (P @ loop_calls ctxt [ret1]) s1" by (rule thread_inv_round [OF "0.prems"(1) assms(1,2) rd])
  then obtain cs where "trace s1 = trace s0 @ cs" "lifecycle env (trace s0) cs = P @ loop_calls ctxt [ret1]"
    by (rule thread_inv_trace)
  then have "N \<le> loops (trace s1)" using "0.prems"(2) loops_lifecycle [of env "trace s0" cs] by simp
  then have "agent_signalled env s1" using assms(3) by (simp add: signalled_by_def agent_signalled_def)
  with rd show ?case by (subst agent_loop.simps) auto
next
  case (Suc k)
  obtain ret1 s1 where rd: "agent_loop_round env ctxt s = (ret1, s1)" by fastforce
  have "thread_inv env s0 L A Q (P @ loop_calls ctxt [ret1]) s1" by (rule thread_inv_round [OF Suc.prems(1) assms(1,2) rd])
  from Suc.IH [OF this, of ret1] Suc.prems(2) have "\<exists>r. agent_loop env ctxt ret1 s1 = Some r"
    by simp
  with rd show ?case by (subst agent_loop.simps) auto
qed

lemma watched_returns:
  assumes "thread_inv env s0 L A Q P s" "agent_contract env" "ctxt \<in> A" "signalled_by env N"
  shows "\<exists>t. evp_agent_thread_watched env ctxt s = Some t"
proof -
  obtain err s1 where w: "sw_wdt env (Call_EsfPwrMgrSwWdtStart EVP_SW_WDT_ID) s = (err, s1)" by fastforce
  note i = thread_inv_set_context [OF thread_inv_wdt [OF assms(1) w], of "Some ctxt"]
  obtain r where "agent_loop env ctxt 0 (set_backdoor_context (Some ctxt) s1) = Some r"
    using agent_loop_returns [OF assms(2-4) i, of N 0] by auto
  with w show ?thesis by (cases r) (auto simp: evp_agent_thread_watched_def Let_def split: prod.splits)
qed

lemma body_returns:
  assumes "thread_inv env s0 L A Q [(setup_call, int ctxt)] s" "agent_contract env" "ctxt \<in> A" "cache_empty (g_proxy_cache s)"
    and "distinct (map ne_block Q)" "ne_block ` set Q \<subseteq> L" "signalled_by env N"
  shows "\<exists>t. evp_agent_thread_body env ctxt s = Some t"
  using assms(1-4)
proof (cases rule: body_cases [where ks = "map entry_key Q"])
  case (ended e t)
  then show ?thesis by blast
next
  case (started s5)
  from started(2) assms(2,3,5,6) show ?thesis
  proof (cases rule: started_cases)
    case (ended e t')
    with started(1) show ?thesis by simp
  next
    case (watched s7)
    from watched_returns [OF watched(2) assms(2,3,7)] watched(1) started(1) show ?thesis by simp
  qed
qed

lemma thread_returns:
  assumes "agent_contract env" "queue_wf s" "elog_wf s" "cache_empty (g_proxy_cache s)" "signalled_by env N"
  shows "\<exists>t. evp_agent_thread env s = Some t"
proof (cases "env_pthread_setname_np env (trace s) = 0")
  case False
  then show ?thesis by (simp add: evp_agent_thread_def Let_def)
next
  case True
  have wf: "heap_wf s" "distinct (map ne_block (g_wasm_native_symbols s))" "ne_block ` set (g_wasm_native_symbols s) \<subseteq> live s"
    using assms(2) by (simp_all add: queue_wf_def queue_blocks_def)
  let ?s2 = "emit (OS (Call_pthread_setname_np ''EVP Agent'')) (s\<lparr>g_evp_agent_started := True\<rparr>)"
  let ?c = "env_evp_agent_setup env (trace ?s2)"
  let ?s3 = "(emit setup_call ?s2)\<lparr>agents := insert ?c (agents s)\<rparr>"
  have c: "?c = env_evp_agent_setup env (trace s @ [OS (Call_pthread_setname_np ''EVP Agent'')])" by simp
  note i = thread_inv_set_up [OF wf(1) assms(3,4) c]
  have "\<exists>t. evp_agent_thread_body env ?c ?s3 = Some t"
    by (rule body_returns [OF i(1) assms(1) insertI1 i(2) wf(2,3) assms(5)])
  with True show ?thesis by (simp add: evp_agent_thread_def Let_def emit_def)
qed

text \<open>An environment in which every call succeeds and shutdown is requested after two rounds.\<close>

definition agent_env_run :: agent_env where
  "agent_env_run = agent_env_ok\<lparr>env_signalled := \<lambda>h. 2 \<le> loops h\<rparr>"

lemma agent_env_run_facts: "agent_contract agent_env_run" "signalled_by agent_env_run 2"
  using agent_env_ok_facts(1)
  by (simp_all add: agent_env_run_def agent_contract_def signalled_by_def esf_contract_def zeroize_contract_def
      clock_contract_def)

section \<open>Properties\<close>

text \<open>C1. Whichever way the agent thread ends, it gives back all it acquired: the agent context and the
  proxy cache. The queued native-symbol entries are all released and the queue is emptied exactly
  if the agent was started (\<open>evp_agent_start\<close> answered 0), and otherwise the queue is untouched; the
  heap is as before apart from these entries. Every mutex taken was released and nothing undefined
  happened, whatever the agent library, the system and network managers, the LED manager, the
  watchdog, the WASM runtime and \<open>malloc\<close> answered.\<close>

theorem agent_thread_releases_everything:
  assumes "agent_contract env" "queue_wf s" "elog_wf s" "cache_empty (g_proxy_cache s)"
    and "\<And>h. env_evp_agent_setup env h \<notin> agents s" "evp_agent_thread env s = Some t"
  shows "agents t = agents s \<and> cache_empty (g_proxy_cache t) \<and> ub t = ub s \<and> elog_wf t \<and>
    (\<exists>cs. trace t = trace s @ cs \<and> balanced cs \<and>
      (if \<exists>c. (EVP (Call_evp_agent_start c), 0) \<in> set (lifecycle env (trace s) cs)
       then live t = live s - queue_blocks s \<and> g_wasm_native_symbols t = []
       else live t = live s \<and> g_wasm_native_symbols t = g_wasm_native_symbols s))"
proof -
  obtain e ctxt where d: "thread_done env s (if queue_flushed e then live s - queue_blocks s else live s) (agents s)
      (if queue_flushed e then [] else g_wasm_native_symbols s) (thread_calls env ctxt (queue_keys s) e) (g_evp_agent_ret t) t"
    "exit_code_ok env (queue_keys s) e (g_evp_agent_ret t)"
    using thread_done_thread [OF assms] by blast
  then have i: "thread_inv env s (if queue_flushed e then live s - queue_blocks s else live s) (agents s)
      (if queue_flushed e then [] else g_wasm_native_symbols s) (thread_calls env ctxt (queue_keys s) e) t"
    and c: "cache_empty (g_proxy_cache t)" by (simp_all add: thread_done_def)
  obtain cs where cs: "trace t = trace s @ cs" "balanced cs"
    "lifecycle env (trace s) cs = thread_calls env ctxt (queue_keys s) e" using i by (rule thread_inv_trace)
  have "live t = (if queue_flushed e then live s - queue_blocks s else live s)"
    "g_wasm_native_symbols t = (if queue_flushed e then [] else g_wasm_native_symbols s)"
    "agents t = agents s" "ub t = ub s" "elog_wf t"
    using i c by (simp_all add: thread_inv_def cache_empty_ptrs)
  with c cs queue_flushed_started [OF d(2), of ctxt] show ?thesis by (auto split: if_splits)
qed

theorem agent_thread_releases_everything_witness:
  "\<exists>t. evp_agent_thread agent_env_run agent_boot = Some t \<and> agents t = {} \<and> live t = {} \<and> \<not> ub t"
proof -
  obtain t where t: "evp_agent_thread agent_env_run agent_boot = Some t"
    using thread_returns [OF agent_env_run_facts(1) agent_boot_facts(1,4,10) agent_env_run_facts(2)] by blast
  from agent_thread_releases_everything [OF agent_env_run_facts(1) agent_boot_facts(1,4,10) _ t]
  show ?thesis using t by (auto simp: agent_boot_facts split: if_splits)
qed

text \<open>C3. The thread makes its life-cycle calls in one of seven patterns: the queued native symbols are
  handed to the runtime between start and connection, in the order of the queue and all of them
  unless one is refused; each successful acquisition (set-up, start, connection, watchdog) is
  followed by its release in the reverse order; the watchdog is kept alive before every round of
  the agent, and a round is never made outside the watched phase. The exit code tells the failure:
  it is the result of the call that failed (start, connection, or the last round of the main loop,
  all earlier rounds having returned 0), \<open>-1\<close> when the runtime refused a symbol, and non-zero when
  the set-up failed. It is 0 only if a shutdown was requested, or if the watchdog could not be
  started.\<close>

theorem agent_thread_lifecycle:
  assumes "agent_contract env" "queue_wf s" "elog_wf s" "cache_empty (g_proxy_cache s)"
    and "\<And>h. env_evp_agent_setup env h \<notin> agents s" "evp_agent_thread env s = Some t"
  shows "\<exists>e ctxt cs. trace t = trace s @ cs \<and>
    lifecycle env (trace s) cs = thread_calls env ctxt (queue_keys s) e \<and>
    exit_code_ok env (queue_keys s) e (g_evp_agent_ret t) \<and>
    (g_evp_agent_ret t = 0 \<longrightarrow> (\<exists>w. e = Watchdog_failed w) \<or> shutdown_seen env s t)"
proof -
  obtain e ctxt where d: "thread_done env s (if queue_flushed e then live s - queue_blocks s else live s) (agents s)
      (if queue_flushed e then [] else g_wasm_native_symbols s) (thread_calls env ctxt (queue_keys s) e) (g_evp_agent_ret t) t"
    "exit_code_ok env (queue_keys s) e (g_evp_agent_ret t)" "loop_end_ok env s ctxt e t"
    using thread_done_thread [OF assms] by blast
  then obtain cs where cs: "trace t = trace s @ cs" "lifecycle env (trace s) cs = thread_calls env ctxt (queue_keys s) e"
    unfolding thread_done_def by (elim conjE thread_inv_trace)
  have "(\<exists>w. e = Watchdog_failed w) \<or> shutdown_seen env s t" if "g_evp_agent_ret t = 0"
    using d(2,3) that by (cases e) (auto simp: loop_end_ok_def)
  with d(2) cs show ?thesis by blast
qed

theorem agent_thread_lifecycle_witness:
  "\<exists>t e ctxt. evp_agent_thread agent_env_run agent_boot = Some t \<and>
     lifecycle agent_env_run [] (trace t) = thread_calls agent_env_run ctxt [] e \<and>
     exit_code_ok agent_env_run [] e (g_evp_agent_ret t)"
proof -
  obtain t where t: "evp_agent_thread agent_env_run agent_boot = Some t"
    using thread_returns [OF agent_env_run_facts(1) agent_boot_facts(1,4,10) agent_env_run_facts(2)] by blast
  from agent_thread_lifecycle [OF agent_env_run_facts(1) agent_boot_facts(1,4,10) _ t]
  show ?thesis using t by (auto simp: agent_boot_facts)
qed

text \<open>C7. The thread returns if a shutdown is requested after some number of rounds: it does not hang in
  the main loop, whatever the agent library answers.\<close>

theorem agent_thread_terminates:
  assumes "agent_contract env" "queue_wf s" "elog_wf s" "cache_empty (g_proxy_cache s)" "signalled_by env N"
  shows "\<exists>t. evp_agent_thread env s = Some t"
  by (rule thread_returns [OF assms])

theorem agent_thread_terminates_witness: "\<exists>t. evp_agent_thread agent_env_run agent_boot = Some t"
  by (rule agent_thread_terminates [OF agent_env_run_facts(1) agent_boot_facts(1,4,10) agent_env_run_facts(2)])

text \<open>C24. Once shutdown is requested the main loop makes exactly one more round and returns, even if the
  round succeeds.\<close>

theorem agent_loop_stops_after_signal:
  assumes "agent_contract env" "heap_wf s" "elog_wf s" "ctxt \<in> agents s" "g_evp_agent_signalled s"
  shows "agent_loop env ctxt 0 s = Some (agent_loop_round env ctxt s)"
proof -
  obtain e s1 where w: "sw_wdt env (Call_EsfPwrMgrSwWdtKeepalive EVP_SW_WDT_ID) s = (e, s1)" by fastforce
  define s2 where "s2 = (if e \<noteq> kEsfPwrMgrOk env then emit (EVP_AGENT_ERR ''evp-agent.c'' 292
    ''EsfPwrMgrSwWdtKeepalive failed: %d'' [FInt e]) s1 else s1)"
  have r2: "agent_rest s2 = agent_rest s" and h2: "heap_wf s2"
    using w assms(2) by (auto simp: s2_def sw_wdt_def edc_frame heap_wf_def)
  then have "elog_wf s2" "ctxt \<in> agents s2" using assms(3,4) by (simp_all add: agent_rest_def)
  note l = local_step_rest(1) [OF evp_lib_step(1) [OF assms(1) h2 this, of "Call_evp_agent_loop ctxt"]]
  have eq: "agent_loop_round env ctxt s = evp_lib env ctxt (Call_evp_agent_loop ctxt) s2"
    using w by (simp add: agent_loop_round_def s2_def Let_def)
  have "g_evp_agent_signalled (snd (agent_loop_round env ctxt s))"
    using l r2 assms(5) by (simp add: eq edc_frame) (simp add: agent_rest_def)
  then show ?thesis by (subst agent_loop.simps) (auto simp: agent_signalled_def split: prod.splits)
qed

theorem agent_loop_stops_after_signal_witness:
  "let s = agent_boot\<lparr>g_evp_agent_signalled := True, agents := {1}\<rparr>
   in agent_loop agent_env_ok 1 0 s = Some (agent_loop_round agent_env_ok 1 s)"
proof -
  have "heap_wf (agent_boot\<lparr>g_evp_agent_signalled := True, agents := {1}\<rparr>)"
    "elog_wf (agent_boot\<lparr>g_evp_agent_signalled := True, agents := {1}\<rparr>)"
    using agent_boot_facts(4,5) by (simp_all add: heap_wf_def elog_wf_def)
  from agent_loop_stops_after_signal [OF agent_env_ok_facts(1) this, of 1] show ?thesis by (simp add: Let_def)
qed

end
