(* ===== verification/Agent_Run.thy ===== *)
theory Agent_Run
  imports Agent_Thread
begin

text \<open>
  Whole runs of the agent: the run in which every call succeeds reaches the main loop, does its
  rounds and ends with exit code 0; what the published context is worth after a run; and the
  composition of the registration of native symbols, the thread and shutdown.
\<close>

section \<open>The run in which every call succeeds\<close>

definition calls_succeed :: "'e agent_env_scheme \<Rightarrow> proxy_param \<Rightarrow> bool" where
  "calls_succeed env prm \<longleftrightarrow>
     (\<forall>h. env_pthread_setname_np env h = 0) \<and> (\<forall>h c. fst (env_evp env h c) = 0) \<and>
     (\<forall>h i. env_EsfLedManagerSetStatus env h i = kEsfLedManagerSuccess env) \<and>
     (\<forall>h a. env_malloc env h a) \<and> (\<forall>h. env_LoadParameter env h = (0, prm)) \<and>
     kEsfNetworkManagerResultSuccess env = 0 \<and>
     int (length (int_dec (pp_port prm))) < int (env_size env ESF_NETWORK_MANAGER_PROXY_PORT_LEN) \<and>
     int (length (int_dec (pp_port prm))) \<le> INT_MAX \<and>
     (\<forall>h topic. env_notification_subscribe env h topic = 0) \<and>
     (\<forall>h m p n. env_wasm_register_natives env h m p n) \<and>
     (\<forall>h c. env_SwWdt env h c = kEsfPwrMgrOk env)"

lemma set_led_loop_ok:
  assumes "\<And>h i. env_EsfLedManagerSetStatus env h i = kEsfLedManagerSuccess env"
  shows "fst (set_led_loop env infos s) = 0"
  using assms by (induction infos arbitrary: s) (simp_all add: Let_def)

lemma subscribe_all_ok:
  assumes "\<And>h topic. env_notification_subscribe env h topic = 0"
  shows "fst (subscribe_all env ctxt subs s) = 0"
  using assms by (induction subs arbitrary: s) (auto simp: Let_def)

lemma flush_ok:
  assumes "\<And>h m p n. env_wasm_register_natives env h m p n"
  shows "fst (evp_agent_flush_wasm_native_symbols env s) = 0"
  using flush_loop_calls [of env "g_wasm_native_symbols s" 0 s] assms
  by (auto simp: evp_agent_flush_wasm_native_symbols_def refused_def)

lemma calls_succeed_steps:
  assumes "calls_succeed env prm"
  shows "fst (evp_lib env ctxt call s) = 0" "fst (agent_status_handler env (Some ''disconnected'') s1) = 0"
    "fst (evp_agent_esf_init_proxy_cache env s2) = 0" "fst (evp_agent_notifications_register env ctxt s3) = 0"
    "fst (evp_agent_flush_wasm_native_symbols env s4) = 0" "fst (agent_loop_round env ctxt s5) = 0"
proof -
  show lib: "fst (evp_lib env ctxt call s) = 0" for s call
    using assms by (simp add: evp_lib_ret calls_succeed_def)
  show "fst (agent_status_handler env (Some ''disconnected'') s1) = 0"
    using assms by (simp add: agent_status_handler_eq calls_succeed_def set_led_loop_ok case_prod_beta Let_def)
  show "fst (evp_agent_esf_init_proxy_cache env s2) = 0"
    using assms by (intro init_proxy_cache_ok [of env prm]) (simp_all add: calls_succeed_def)
  show "fst (evp_agent_notifications_register env ctxt s3) = 0"
    using assms by (simp add: evp_agent_notifications_register_def calls_succeed_def subscribe_all_ok Let_def)
  show "fst (evp_agent_flush_wasm_native_symbols env s4) = 0"
    using assms by (intro flush_ok) (simp add: calls_succeed_def)
  show "fst (agent_loop_round env ctxt s5) = 0"
    by (simp add: agent_loop_round_def case_prod_beta Let_def lib)
qed

lemma agent_loop_ret_0:
  fixes s :: "'s agent_state_scheme" and env :: "'e agent_env_scheme"
  assumes "agent_loop env ctxt ret s = Some r"
  shows "(\<forall>s :: 's agent_state_scheme. fst (agent_loop_round env ctxt s) = 0) \<and> ret = 0 \<longrightarrow> fst r = 0"
proof (rule agent_loop.raw_induct [where P = "\<lambda>env ctxt ret (s :: 's agent_state_scheme) r.
    (\<forall>s :: 's agent_state_scheme. fst (agent_loop_round env ctxt s) = 0) \<and> ret = 0 \<longrightarrow> fst r = 0", OF _ assms],
    intro impI, elim conjE)
  fix f and env :: "'e agent_env_scheme" and ctxt ret and s :: "'s agent_state_scheme" and r
  assume IH: "\<And>env ctxt ret (s :: 's agent_state_scheme) r. f env ctxt ret s = Some r \<Longrightarrow>
      (\<forall>s :: 's agent_state_scheme. fst (agent_loop_round env ctxt s) = 0) \<and> ret = 0 \<longrightarrow> fst r = 0"
    and eq: "(if ret = 0 then let (ret1, s1) = agent_loop_round env ctxt s
        in if agent_signalled env s1 then Some (ret1, s1) else f env ctxt ret1 s1 else Some (ret, s)) = Some r"
    and ok: "\<forall>s :: 's agent_state_scheme. fst (agent_loop_round env ctxt s) = 0" "ret = 0"
  obtain s1 where "agent_loop_round env ctxt s = (0, s1)" using ok(1) by (metis prod.collapse)
  with eq ok IH [of env ctxt 0 s1 r] show "fst r = 0" by (auto split: if_splits)
qed

text \<open>Every step before the main loop succeeds, and the loop is entered.\<close>

lemma calls_succeed_watched:
  fixes s :: "'s agent_state_scheme"
  assumes "calls_succeed env prm" "thread_inv env s0 L A Q [(setup_call, int ctxt)] s" "agent_contract env" "ctxt \<in> A"
    and "cache_empty (g_proxy_cache s)" "distinct (map ne_block Q)" "ne_block ` set Q \<subseteq> L"
  shows "\<exists>s7. evp_agent_thread_body env ctxt s = evp_agent_thread_watched env ctxt s7 \<and>
    thread_inv env s0 (L - ne_block ` set Q) A []
      (started_calls ctxt 0 (map entry_key Q) @ [(EVP (Call_evp_agent_connect ctxt), 0)]) s7"
proof -
  have esf: "esf_contract env" using assms(3) by (simp add: agent_contract_def)
  note ok = calls_succeed_steps [OF assms(1)]
  have pair: "\<exists>t. x = (0, t)" if "fst x = 0" for x :: "int \<times> 's agent_state_scheme"
    using that by (metis prod.collapse)
  obtain s1 where l1: "evp_lib env ctxt (Call_evp_agent_platform_register ctxt) s = (0, s1)" using pair [OF ok(1)] by blast
  obtain s2 where l2: "agent_status_handler env (Some ''disconnected'') s1 = (0, s2)" using pair [OF ok(2)] by blast
  obtain s3 where l3: "evp_agent_esf_init_proxy_cache env s2 = (0, s3)" using pair [OF ok(3)] by blast
  obtain s4 where l4: "evp_agent_notifications_register env ctxt s3 = (0, s4)" using pair [OF ok(4)] by blast
  obtain s5 where l5: "evp_lib env ctxt (Call_evp_agent_start ctxt) s4 = (0, s5)" using pair [OF ok(1)] by blast
  obtain s6 where l6: "evp_agent_flush_wasm_native_symbols env s5 = (0, s6)" using pair [OF ok(5)] by blast
  obtain s7 where l7: "evp_lib env ctxt (Call_evp_agent_connect ctxt) s6 = (0, s7)" using pair [OF ok(1)] by blast
  have i1: "thread_inv env s0 L A Q [(setup_call, int ctxt)] s1"
    using thread_inv_lib [OF assms(2-4) l1] by simp
  have q2: "local_step s1 s2"
    using agent_status_local_step [OF esf thread_inv_facts(1) [OF i1], of "Some ''disconnected''"] l2 by simp
  have e2: "cache_empty (g_proxy_cache s2)"
    using q2 evp_lib_cache [OF assms(2-4) l1] assms(5) by (simp add: local_step_def kept_def)
  note i4 = thread_inv_register [OF thread_inv_init_proxy(1) [OF thread_inv_local [OF i1 q2] e2 esf l3] l4]
  have ans: "fst (env_evp env h c) = 0" for h c using assms(1) by (simp add: calls_succeed_def)
  have i6: "thread_inv env s0 (L - ne_block ` set Q) A [] (started_calls ctxt 0 (map entry_key Q)) s6"
    using thread_inv_flush [OF thread_inv_lib [OF i4 assms(3,4) l5] assms(6,7) l6]
    by (auto simp: started_calls_def ans)
  have "thread_inv env s0 (L - ne_block ` set Q) A []
      (started_calls ctxt 0 (map entry_key Q) @ [(EVP (Call_evp_agent_connect ctxt), 0)]) s7"
    using thread_inv_lib [OF i6 assms(3,4) l7] by (simp add: ans)
  moreover have "evp_agent_thread_body env ctxt s = evp_agent_thread_watched env ctxt s7"
    by (simp add: evp_agent_thread_body_def l1 l2 l3 l4 l5 l6 l7)
  ultimately show ?thesis by blast
qed

text \<open>With a watchdog that starts, the watched phase is the main loop, and every round answers 0.\<close>

lemma zero_answers:
  assumes "rs \<noteq> []" "last rs = 0" "\<forall>r \<in> set (butlast rs). r = (0 :: int)"
  shows "rs = replicate (length rs) 0"
proof -
  have "\<forall>r \<in> set (butlast rs @ [last rs]). r = 0" using assms(2,3) by auto
  with assms(1) show ?thesis by (intro replicate_eqI) simp_all
qed

lemma watched_loop_ended:
  assumes "calls_succeed env prm" "thread_inv env s0 L A Q P s" "agent_contract env" "ctxt \<in> A" "signalled_by env N"
    and "P = started_calls ctxt 0 ks @ [(EVP (Call_evp_agent_connect ctxt), 0)]"
  shows "\<exists>t n. evp_agent_thread_watched env ctxt s = Some t \<and>
    thread_done env s0 L (A - {ctxt}) Q (thread_calls env ctxt ks (Loop_ended (replicate n 0))) 0 t \<and> 0 < n"
proof -
  obtain t where t: "evp_agent_thread_watched env ctxt s = Some t"
    using watched_returns [OF assms(2-5)] by blast
  obtain s1 where w: "sw_wdt env (Call_EsfPwrMgrSwWdtStart EVP_SW_WDT_ID) s = (kEsfPwrMgrOk env, s1)"
    using assms(1) by (simp add: sw_wdt_def calls_succeed_def)
  from watched_loop_done [OF assms(2-4) t assms(6) w] obtain rs s3 where
    rs: "thread_done env s0 L (A - {ctxt}) Q (thread_calls env ctxt ks (Loop_ended rs)) (g_evp_agent_ret t) t"
      "exit_code_ok env ks (Loop_ended rs) (g_evp_agent_ret t)"
    and l: "agent_loop env ctxt 0 (set_backdoor_context (Some ctxt) s1) = Some (g_evp_agent_ret t, s3)" by blast
  have ret: "g_evp_agent_ret t = 0"
    by (rule agent_loop_ret_0 [OF l, THEN mp, unfolded fst_conv]) (simp add: calls_succeed_steps(6) [OF assms(1)])
  with rs(2) have "rs = replicate (length rs) 0" "rs \<noteq> []" using zero_answers [of rs] by simp_all
  with t rs(1) ret show ?thesis by (metis length_greater_0_conv)
qed

lemma thread_loop_ended:
  assumes "calls_succeed env prm" "agent_contract env" "queue_wf s" "elog_wf s" "cache_empty (g_proxy_cache s)"
    and "signalled_by env N"
  shows "\<exists>t n ctxt A. evp_agent_thread env s = Some t \<and> 0 < n \<and>
    thread_done env s (live s - queue_blocks s) A [] (thread_calls env ctxt (queue_keys s) (Loop_ended (replicate n 0))) 0 t"
proof -
  have wf: "heap_wf s" "distinct (map ne_block (g_wasm_native_symbols s))" "ne_block ` set (g_wasm_native_symbols s) \<subseteq> live s"
    using assms(3) by (simp_all add: queue_wf_def queue_blocks_def)
  let ?s2 = "emit (OS (Call_pthread_setname_np ''EVP Agent'')) (s\<lparr>g_evp_agent_started := True\<rparr>)"
  let ?c = "env_evp_agent_setup env (trace ?s2)"
  let ?s3 = "(emit setup_call ?s2)\<lparr>agents := insert ?c (agents s)\<rparr>"
  have c: "?c = env_evp_agent_setup env (trace s @ [OS (Call_pthread_setname_np ''EVP Agent'')])" by simp
  note i = thread_inv_set_up [OF wf(1) assms(4,5) c]
  obtain s7 where b: "evp_agent_thread_body env ?c ?s3 = evp_agent_thread_watched env ?c s7" and
    s7: "thread_inv env s (live s - ne_block ` set (g_wasm_native_symbols s)) (insert ?c (agents s)) []
      (started_calls ?c 0 (queue_keys s) @ [(EVP (Call_evp_agent_connect ?c), 0)]) s7"
    using calls_succeed_watched [OF assms(1) i(1) assms(2) insertI1 i(2) wf(2,3)] unfolding queue_keys_def by blast
  from watched_loop_ended [OF assms(1) s7 assms(2) insertI1 assms(6) refl] obtain t n where
    t: "evp_agent_thread_watched env ?c s7 = Some t" "0 < n"
    "thread_done env s (live s - ne_block ` set (g_wasm_native_symbols s)) (insert ?c (agents s) - {?c}) []
      (thread_calls env ?c (queue_keys s) (Loop_ended (replicate n 0))) 0 t" by blast
  moreover have "evp_agent_thread env s = Some t"
    using t(1) b assms(1) by (simp add: evp_agent_thread_def Let_def emit_def calls_succeed_def)
  ultimately show ?thesis unfolding queue_blocks_def by blast
qed

lemma agent_env_run_succeeds: "calls_succeed agent_env_run example_proxy"
  using agent_env_ok_facts
  by (simp add: calls_succeed_def agent_env_run_def agent_env_ok_def notif_env.defs notif_env_ok_def config_env_ok_def
      esf_env_ok_def log_env_ok_def log_env.defs esf_env.defs config_env.defs example_proxy_def int_dec_def
      nat_base.simps INT_MAX_def)

lemmas agent_run_hyps = agent_env_run_facts(1) agent_boot_facts(1,4,10)

section \<open>Properties\<close>

text \<open>C35. When the thread has run its main loop and ended, the published context still points to the
  freed agent: a later \<open>EVP_getAgentStatus\<close> hands it to the library, which is undefined.\<close>

theorem backdoor_context_dangles:
  assumes "agent_contract env" "queue_wf s" "elog_wf s" "cache_empty (g_proxy_cache s)"
    and "\<And>h. env_evp_agent_setup env h \<notin> agents s" "evp_agent_thread env s = Some t"
    and "trace t = trace s @ cs" "0 < loops cs"
  shows "ub (snd (EVP_getAgentStatus env t))"
proof -
  obtain e ctxt L Q where d: "thread_done env s L (agents s) Q (thread_calls env ctxt (queue_keys s) e) (g_evp_agent_ret t) t"
    "e = Not_named \<or> ctxt \<notin> agents s" "loop_end_ok env s ctxt e t"
    using thread_done_thread [OF assms(1-6)] by blast
  then have i: "thread_inv env s L (agents s) Q (thread_calls env ctxt (queue_keys s) e) t" by (simp add: thread_done_def)
  then have "lifecycle env (trace s) cs = thread_calls env ctxt (queue_keys s) e" using assms(7) by (auto simp: thread_inv_def)
  then have "0 < loops (map fst (thread_calls env ctxt (queue_keys s) e))"
    using assms(8) loops_lifecycle [of env "trace s" cs] by simp
  then obtain n where "e = Loop_ended n" by (cases e) (auto simp: loops_Cons)
  with d(2,3) have c: "g_evp_agent_ctxt t = Some ctxt" "ctxt \<notin> agents t"
    using thread_inv_facts(3) [OF i] by (auto simp: loop_end_ok_def)
  let ?t1 = "snd (get_backdoor_context t)"
  let ?call = "Call_evp_agent_get_status ctxt"
  let ?u = "undefined_behaviour (emit (EVP ?call) ?t1)"
  have t1: "?t1 = t\<lparr>trace := trace t @ [OS (Call_mutex_lock g_evp_agent_lock), OS (Call_mutex_unlock g_evp_agent_lock)]\<rparr>"
    by (simp add: get_backdoor_context_def Let_def mutex_lock_def mutex_unlock_def emit_def)
  have "heap_wf ?u" "elog_wf ?u"
    using thread_inv_facts(1,2) [OF i] by (simp_all add: t1 heap_wf_def)
  then have "local_step ?u (fold (agent_callback env) (snd (env_evp env (trace ?t1) ?call)) ?u)"
    using assms(1) by (intro callbacks_local_step) (simp_all add: agent_contract_def)
  then have "ub (fold (agent_callback env) (snd (env_evp env (trace ?t1) ?call)) ?u)" by (simp add: local_step_def)
  moreover have "snd (EVP_getAgentStatus env t) = fold (agent_callback env) (snd (env_evp env (trace ?t1) ?call)) ?u"
    using c by (simp add: EVP_getAgentStatus_def get_backdoor_context_def evp_lib_def case_prod_beta Let_def
        mutex_lock_def mutex_unlock_def emit_def)
  ultimately show ?thesis by simp
qed

theorem backdoor_context_dangles_witness:
  "\<exists>t. evp_agent_thread agent_env_run agent_boot = Some t \<and> \<not> ub t \<and> ub (snd (EVP_getAgentStatus agent_env_run t))"
proof -
  obtain t n ctxt A where t: "evp_agent_thread agent_env_run agent_boot = Some t" "0 < n"
    "thread_done agent_env_run agent_boot (live agent_boot - queue_blocks agent_boot) A []
      (thread_calls agent_env_run ctxt (queue_keys agent_boot) (Loop_ended (replicate n 0))) 0 t"
    using thread_loop_ended [OF agent_env_run_succeeds agent_run_hyps agent_env_run_facts(2)] by blast
  then have i: "thread_inv agent_env_run agent_boot (live agent_boot - queue_blocks agent_boot) A []
      (thread_calls agent_env_run ctxt [] (Loop_ended (replicate n 0))) t"
    by (simp only: thread_done_def agent_boot_facts)
  then have "lifecycle agent_env_run [] (trace t) = thread_calls agent_env_run ctxt [] (Loop_ended (replicate n 0))" "\<not> ub t"
    unfolding thread_inv_def by (auto simp only: agent_boot_facts append_Nil)
  then have "0 < loops (trace t)" using t(2) loops_lifecycle [of agent_env_run "[]" "trace t"] by (simp add: loops_Cons)
  with backdoor_context_dangles [OF agent_run_hyps _ t(1), of "trace t"] t(1) \<open>\<not> ub t\<close> show ?thesis
    by (simp add: agent_boot_facts)
qed

end
