(* ===== verification/Agent_Concurrency.thy ===== *)
theory Agent_Concurrency
  imports Agent_Api
begin

text \<open>
  The native-symbol queue under concurrency. Any thread may call
  \<open>EVP_wasm_runtime_register_natives\<close>; the agent thread sets \<open>started\<close> (\<open>evp-agent.c:231\<close>) and later
  flushes the queue without its lock. The two functions are cut into steps at their accesses to
  shared data, and a step relation interleaves any number of registering threads, the agent
  thread and other code that leaves the queue alone.

  \<open>TAILQ_INSERT_TAIL\<close> and \<open>TAILQ_REMOVE\<close> write several pointers of the list and are not atomic: each
  is a window with a step that opens it and a step that closes it. The insertion holds the lock,
  the flush does not. When the flush reads or changes the list while an insertion is open, or an
  insertion is opened while a removal is, the pointers seen may be half written or point into a
  block that is then released; such an overlap is undefined behaviour and sets \<open>ub\<close>. Between
  operations that do not overlap memory is taken to be sequentially consistent.
\<close>

section \<open>Registration in steps\<close>

type_synonym request = "string option \<times> nat option \<times> u32"

text \<open>Where a registering thread is; \<open>Reg_inserting\<close> is inside \<open>TAILQ_INSERT_TAIL\<close>. \<open>Reg_return\<close> holds the
  inserted entry when the result is true.\<close>

datatype reg_pc =
    Reg_check request
  | Reg_add request
  | Reg_lock native_symbol_entry
  | Reg_insert native_symbol_entry
  | Reg_inserting native_symbol_entry
  | Reg_unlock native_symbol_entry
  | Reg_return "native_symbol_entry option"

fun reg_step ::
  "'e libc_env_scheme \<Rightarrow> reg_pc \<Rightarrow> 's agent_state_scheme \<Rightarrow> reg_pc \<times> 's agent_state_scheme" where
  "reg_step env (Reg_check req) s =
     (if g_evp_agent_started s then
        (Reg_return None, emit (EVP_AGENT_ERR ''evp-agent.c'' 193 ''EVP Agent has already started'' []) s)
      else (Reg_add req, s))"
| "reg_step env (Reg_add (module_name, native_symbols, n_native_symbols)) s =
     (case module_name of
        None \<Rightarrow> (Reg_return None, emit (EVP_AGENT_ERR ''evp-agent.c'' 158 ''module_name is NULL'' []) s)
      | Some name \<Rightarrow>
          (case native_symbols of
             None \<Rightarrow> (Reg_return None, emit (EVP_AGENT_ERR ''evp-agent.c'' 162 ''native_symbols is NULL'' []) s)
           | Some symbols \<Rightarrow>
               (if n_native_symbols = 0 then
                  (Reg_return None, emit (EVP_AGENT_ERR ''evp-agent.c'' 166 ''n_native_symbols is 0'' []) s)
                else
                  let (p, s1) = c_malloc env Alloc_native_symbol_entry s
                  in case p of
                       None \<Rightarrow> (Reg_return None, emit (EVP_AGENT_ERR ''evp-agent.c'' 172
                          ''failed to allocate memory for native_symbol_entry'' []) s1)
                     | Some b \<Rightarrow>
                         (Reg_lock \<lparr>ne_block = b, ne_module_name = name, ne_native_symbols = symbols,
                            ne_n_native_symbols = n_native_symbols\<rparr>, s1))))"
| "reg_step env (Reg_lock entry) s = (Reg_insert entry, mutex_lock g_wasm_native_symbols_lock s)"
| "reg_step env (Reg_insert entry) s = (Reg_inserting entry, s)"
| "reg_step env (Reg_inserting entry) s =
     (Reg_unlock entry, s\<lparr>g_wasm_native_symbols := g_wasm_native_symbols s @ [entry]\<rparr>)"
| "reg_step env (Reg_unlock entry) s = (Reg_return (Some entry), mutex_unlock g_wasm_native_symbols_lock s)"
| "reg_step env (Reg_return r) s = (Reg_return r, s)"

section \<open>The flush in steps\<close>

text \<open>\<open>TAILQ_FIRST\<close> and \<open>TAILQ_NEXT\<close>.\<close>

fun tailq_first :: "native_symbol_entry list \<Rightarrow> native_symbol_entry option" where
  "tailq_first [] = None"
| "tailq_first (e # es) = Some e"

fun tailq_next :: "nat \<Rightarrow> native_symbol_entry list \<Rightarrow> native_symbol_entry option" where
  "tailq_next b [] = None"
| "tailq_next b (e # es) = (if ne_block e = b then tailq_first es else tailq_next b es)"

text \<open>Where the flush is, with the loop's variables \<open>entry\<close>, \<open>tmp\<close> and \<open>ret\<close>; \<open>Flush_unlinking\<close> is inside
  \<open>TAILQ_REMOVE\<close>.\<close>

datatype flush_pc =
    Flush_enter
  | Flush_next "native_symbol_entry option" int
  | Flush_register native_symbol_entry "native_symbol_entry option" int
  | Flush_unlink native_symbol_entry "native_symbol_entry option" int
  | Flush_unlinking native_symbol_entry "native_symbol_entry option" int
  | Flush_free native_symbol_entry "native_symbol_entry option" int
  | Flush_return int

fun flush_step ::
  "'e agent_env_scheme \<Rightarrow> flush_pc \<Rightarrow> 's agent_state_scheme \<Rightarrow> flush_pc \<times> 's agent_state_scheme" where
  "flush_step env Flush_enter s = (Flush_next (tailq_first (g_wasm_native_symbols s)) 0, s)"
| "flush_step env (Flush_next None ret) s = (Flush_return ret, s)"
| "flush_step env (Flush_next (Some entry) ret) s =
     (Flush_register entry (tailq_next (ne_block entry) (g_wasm_native_symbols s)) ret, s)"
| "flush_step env (Flush_register entry tmp ret) s =
     (if ret = 0 then
        let ok = env_wasm_register_natives env (trace s) (ne_module_name entry)
                   (ne_native_symbols entry) (ne_n_native_symbols entry);
            s' = emit (EVP (Call_wasm_runtime_register_natives (ne_module_name entry)
                   (ne_native_symbols entry) (ne_n_native_symbols entry))) s
        in if \<not> ok then
             (Flush_unlink entry tmp (-1),
              emit (EVP_AGENT_ERR ''evp-agent.c'' 214 ''Failed to register native symbols'' []) s')
           else (Flush_unlink entry tmp ret, s')
      else (Flush_unlink entry tmp ret, s))"
| "flush_step env (Flush_unlink entry tmp ret) s = (Flush_unlinking entry tmp ret, s)"
| "flush_step env (Flush_unlinking entry tmp ret) s =
     (Flush_free entry tmp ret,
      s\<lparr>g_wasm_native_symbols := filter (\<lambda>e. ne_block e \<noteq> ne_block entry) (g_wasm_native_symbols s)\<rparr>)"
| "flush_step env (Flush_free entry tmp ret) s = (Flush_next tmp ret, c_free (Some (ne_block entry)) s)"
| "flush_step env (Flush_return ret) s = (Flush_return ret, s)"

section \<open>Alone, the steps are the functions\<close>

definition reg_run :: "'e libc_env_scheme \<Rightarrow> nat \<Rightarrow> reg_pc \<times> 's agent_state_scheme \<Rightarrow> reg_pc \<times> 's agent_state_scheme" where
  "reg_run env n = (\<lambda>(pc, s). reg_step env pc s) ^^ n"

definition flush_run ::
  "'e agent_env_scheme \<Rightarrow> nat \<Rightarrow> flush_pc \<times> 's agent_state_scheme \<Rightarrow> flush_pc \<times> 's agent_state_scheme" where
  "flush_run env n = (\<lambda>(pc, s). flush_step env pc s) ^^ n"

lemma reg_run_simps:
  "reg_run env 0 x = x" "reg_run env (Suc n) (pc, s) = reg_run env n (reg_step env pc s)"
  by (simp_all add: reg_run_def funpow_swap1)

lemma flush_run_simps:
  "flush_run env 0 x = x" "flush_run env (Suc n) (pc, s) = flush_run env n (flush_step env pc s)"
  by (simp_all add: flush_run_def funpow_swap1)

lemma flush_run_add: "flush_run env (m + n) x = flush_run env n (flush_run env m x)"
  by (simp add: flush_run_def add.commute [of m] funpow_add)

lemma reg_run_alone:
  "\<exists>r. reg_run env 6 (Reg_check (m, p, n), s) =
     (Reg_return r, snd (EVP_wasm_runtime_register_natives env m p n s)) \<and>
     (r \<noteq> None) = fst (EVP_wasm_runtime_register_natives env m p n s)"
  by (cases "c_malloc env Alloc_native_symbol_entry s")
    (auto simp: numeral_eq_Suc reg_run_simps EVP_wasm_runtime_register_natives_def
      evp_agent_wasm_native_symbol_add_def Let_def split: option.split)

text \<open>Five steps of the flush are one round of the loop.\<close>

lemma flush_round_alone:
  assumes "g_wasm_native_symbols s = e # es" "distinct (map ne_block (e # es))"
  shows "flush_run env 5 (Flush_next (Some e) ret, s) =
    (Flush_next (tailq_first es) (fst (flush_entry env e ret s)), snd (flush_entry env e ret s))"
  using assms by (simp add: numeral_eq_Suc flush_run_simps flush_entry_def Let_def)

lemma flush_loop_alone:
  assumes "g_wasm_native_symbols s = es" "distinct (map ne_block es)" "ne_block ` set es \<subseteq> live s"
  shows "flush_run env (5 * length es + 1) (Flush_next (tailq_first es) ret, s) =
    (Flush_return (fst (flush_loop env es ret s)), snd (flush_loop env es ret s))"
  using assms
proof (induction es arbitrary: ret s)
  case Nil
  then show ?case by (simp add: flush_run_simps)
next
  case (Cons e es)
  let ?t = "snd (flush_entry env e ret s)"
  have l: "ne_block e \<in> live s" using Cons.prems(3) by simp
  note t = flush_entry_state [OF Cons.prems(1,2) l, of env ret]
  have d: "distinct (map ne_block es)" "ne_block e \<notin> ne_block ` set es" using Cons.prems(2) by auto
  have "ne_block ` set es \<subseteq> live ?t" using Cons.prems(3) d(2) by (simp add: t(2) subset_Diff_insert)
  note IH = Cons.IH [OF t(1) d(1) this, of "fst (flush_entry env e ret s)"]
  have "5 * length (e # es) + 1 = 5 + (5 * length es + 1)" by simp
  then show ?case
    using IH flush_round_alone [OF Cons.prems(1,2), of env ret] by (simp only: flush_run_add flush_loop_Cons tailq_first.simps)
qed

section \<open>The interleaving\<close>

datatype agent_pc = Agent_not_started | Agent_starting | Agent_flushing flush_pc | Agent_failed

text \<open>
  The shared memory, the place of every registering thread (\<open>None\<close>: not in the function) and of the
  agent thread, the holder of the queue's lock, and, for the statements only, the entries
  inserted so far.
\<close>

record sys =
  shared :: agent_state
  clients :: "nat \<Rightarrow> reg_pc option"
  agent :: agent_pc
  symbols_lock :: "nat option"
  inserted :: "native_symbol_entry list"

abbreviation symbols :: "sys \<Rightarrow> native_symbol_entry list" where
  "symbols s \<equiv> g_wasm_native_symbols (shared s)"

abbreviation visited :: "sys \<Rightarrow> native_key list" where
  "visited s \<equiv> native_visited (shared s)"

text \<open>The entry that a registering thread, or the agent thread, holds outside the queue.\<close>

fun reg_entry :: "reg_pc \<Rightarrow> native_symbol_entry option" where
  "reg_entry (Reg_lock e) = Some e"
| "reg_entry (Reg_insert e) = Some e"
| "reg_entry (Reg_inserting e) = Some e"
| "reg_entry _ = None"

definition client_entry :: "sys \<Rightarrow> nat \<Rightarrow> native_symbol_entry option" where
  "client_entry s i = Option.bind (clients s i) reg_entry"

fun agent_pc_entry :: "agent_pc \<Rightarrow> native_symbol_entry option" where
  "agent_pc_entry (Agent_flushing (Flush_free e t r)) = Some e"
| "agent_pc_entry _ = None"

definition entry_blocks :: "sys \<Rightarrow> nat set" where
  "entry_blocks s = queue_blocks (shared s) \<union> {ne_block e | e i. client_entry s i = Some e} \<union>
     ne_block ` set_option (agent_pc_entry (agent s))"

text \<open>
  Overlap. The flush accesses the list when it reads the first entry, when it reads the successor
  of an entry, and while it removes one; an insertion accesses it while it is open.
\<close>

fun list_access :: "flush_pc \<Rightarrow> bool" where
  "list_access Flush_enter = True"
| "list_access (Flush_next (Some e) ret) = True"
| "list_access (Flush_unlink e tmp ret) = True"
| "list_access (Flush_unlinking e tmp ret) = True"
| "list_access _ = False"

definition inserting :: "sys \<Rightarrow> bool" where
  "inserting s \<longleftrightarrow> (\<exists>i e. clients s i = Some (Reg_inserting e))"

fun unlinking :: "agent_pc \<Rightarrow> bool" where
  "unlinking (Agent_flushing (Flush_unlinking e tmp ret)) = True"
| "unlinking _ = False"

definition race :: "bool \<Rightarrow> 's io_state_scheme \<Rightarrow> 's io_state_scheme" where
  "race overlap s = (if overlap then undefined_behaviour s else s)"

text \<open>
  What other code may do meanwhile, the agent thread's own set-up included: anything that keeps
  the flag and the queue, does not release the blocks of entries and registers no symbols.
\<close>

definition undisturbed :: "nat set \<Rightarrow> 's agent_state_scheme \<Rightarrow> 's agent_state_scheme \<Rightarrow> bool" where
  "undisturbed B s m \<longleftrightarrow> g_wasm_native_symbols m = g_wasm_native_symbols s \<and>
     g_evp_agent_started m = g_evp_agent_started s \<and> ub m = ub s \<and> heap_wf m \<and> fresh s \<le> fresh m \<and>
     B \<inter> live s \<subseteq> live m \<and> native_visited m = native_visited s"

inductive sys_step :: "'e agent_env_scheme \<Rightarrow> sys \<Rightarrow> sys \<Rightarrow> bool" for env where
  reg_call: "clients s i = None \<Longrightarrow> sys_step env s (s\<lparr>clients := (clients s)(i \<mapsto> Reg_check req)\<rparr>)"
| reg_check: "clients s i = Some (Reg_check req) \<Longrightarrow> reg_step env (Reg_check req) (shared s) = (pc, m) \<Longrightarrow>
     sys_step env s (s\<lparr>shared := m, clients := (clients s)(i \<mapsto> pc)\<rparr>)"
| reg_add: "clients s i = Some (Reg_add req) \<Longrightarrow> reg_step env (Reg_add req) (shared s) = (pc, m) \<Longrightarrow>
     sys_step env s (s\<lparr>shared := m, clients := (clients s)(i \<mapsto> pc)\<rparr>)"
| reg_lock: "clients s i = Some (Reg_lock e) \<Longrightarrow> symbols_lock s = None \<Longrightarrow>
     reg_step env (Reg_lock e) (shared s) = (pc, m) \<Longrightarrow>
     sys_step env s (s\<lparr>shared := m, clients := (clients s)(i \<mapsto> pc), symbols_lock := Some i\<rparr>)"
| reg_insert: "clients s i = Some (Reg_insert e) \<Longrightarrow> reg_step env (Reg_insert e) (shared s) = (pc, m) \<Longrightarrow>
     sys_step env s (s\<lparr>shared := race (unlinking (agent s)) m, clients := (clients s)(i \<mapsto> pc)\<rparr>)"
| reg_inserted: "clients s i = Some (Reg_inserting e) \<Longrightarrow> reg_step env (Reg_inserting e) (shared s) = (pc, m) \<Longrightarrow>
     sys_step env s (s\<lparr>shared := m, clients := (clients s)(i \<mapsto> pc), inserted := inserted s @ [e]\<rparr>)"
| reg_unlock: "clients s i = Some (Reg_unlock e) \<Longrightarrow> reg_step env (Reg_unlock e) (shared s) = (pc, m) \<Longrightarrow>
     sys_step env s (s\<lparr>shared := m, clients := (clients s)(i \<mapsto> pc), symbols_lock := None\<rparr>)"
| reg_return: "clients s i = Some (Reg_return r) \<Longrightarrow> sys_step env s (s\<lparr>clients := (clients s)(i := None)\<rparr>)"
| agent_start: "agent s = Agent_not_started \<Longrightarrow>
     sys_step env s (s\<lparr>shared := (shared s)\<lparr>g_evp_agent_started := True\<rparr>, agent := Agent_starting\<rparr>)"
| agent_fail: "agent s = Agent_starting \<Longrightarrow> sys_step env s (s\<lparr>agent := Agent_failed\<rparr>)"
| agent_flush: "agent s = Agent_starting \<Longrightarrow> sys_step env s (s\<lparr>agent := Agent_flushing Flush_enter\<rparr>)"
| flush: "agent s = Agent_flushing pc \<Longrightarrow> flush_step env pc (shared s) = (pc', m) \<Longrightarrow>
     sys_step env s (s\<lparr>shared := race (list_access pc \<and> inserting s) m, agent := Agent_flushing pc'\<rparr>)"
| other: "undisturbed (entry_blocks s) (shared s) m \<Longrightarrow> sys_step env s (s\<lparr>shared := m\<rparr>)"

text \<open>At program start nothing is queued and no thread is in the functions.\<close>

definition sys_init :: "sys \<Rightarrow> bool" where
  "sys_init s \<longleftrightarrow> heap_wf (shared s) \<and> \<not> ub (shared s) \<and> symbols s = [] \<and> visited s = [] \<and>
     \<not> g_evp_agent_started (shared s) \<and> (\<forall>i. clients s i = None) \<and> agent s = Agent_not_started \<and>
     symbols_lock s = None \<and> inserted s = []"

text \<open>The handlers and the callbacks of the library are such other code.\<close>

lemma native_regs_local: "list_all local_call cs \<Longrightarrow> native_regs cs = []"
  by (induction cs rule: native_regs.induct) auto

lemma local_step_undisturbed:
  assumes "local_step s t" "heap_wf s"
  shows "undisturbed B s t"
proof -
  have r: "agent_rest t = agent_rest s" "g_wasm_native_symbols t = g_wasm_native_symbols s"
    by (rule local_step_rest [OF assms(1)])+
  obtain cs where "trace t = trace s @ cs" "list_all local_call cs" using assms(1) by (auto simp: local_step_def)
  then have "native_visited t = native_visited s" by (simp add: native_visited_def native_regs_local)
  then show ?thesis
    using r assms(1) local_step_heap_wf [OF assms] by (auto simp: undisturbed_def agent_rest_def local_step_def)
qed

section \<open>Invariants of the interleaving\<close>

text \<open>Memory: entries are in live blocks of their own.\<close>

definition inv_mem :: "sys \<Rightarrow> bool" where
  "inv_mem s \<longleftrightarrow> heap_wf (shared s) \<and> \<not> ub (shared s) \<and> distinct (map ne_block (symbols s)) \<and>
     entry_blocks s \<subseteq> live (shared s) \<and>
     (\<forall>i e. client_entry s i = Some e \<longrightarrow> ne_block e \<notin> queue_blocks (shared s) \<and>
        (\<forall>j f. client_entry s j = Some f \<and> ne_block f = ne_block e \<longrightarrow> j = i)) \<and>
     (\<forall>e. agent_pc_entry (agent s) = Some e \<longrightarrow> ne_block e \<notin> queue_blocks (shared s) \<and>
        (\<forall>j f. client_entry s j = Some f \<longrightarrow> ne_block f \<noteq> ne_block e))"

text \<open>The lock is held exactly by a thread between its lock and unlock.\<close>

fun reg_locked :: "reg_pc \<Rightarrow> bool" where
  "reg_locked (Reg_insert e) = True"
| "reg_locked (Reg_inserting e) = True"
| "reg_locked (Reg_unlock e) = True"
| "reg_locked _ = False"

definition inv_lock :: "sys \<Rightarrow> bool" where
  "inv_lock s \<longleftrightarrow> (\<forall>i. symbols_lock s = Some i \<longleftrightarrow> (\<exists>pc. clients s i = Some pc \<and> reg_locked pc))"

text \<open>The runtime has seen a prefix of the entries \<open>d\<close>, all of them while \<open>ret\<close> is 0.\<close>

definition regs_ok :: "int \<Rightarrow> native_symbol_entry list \<Rightarrow> native_key list \<Rightarrow> bool" where
  "regs_ok ret d v \<longleftrightarrow> prefix v (map entry_key d) \<and> (ret = 0 \<longrightarrow> v = map entry_key d)"

text \<open>\<open>first_is t q\<close>: a saved successor, if any, is the first entry of \<open>q\<close>.\<close>

definition first_is :: "native_symbol_entry option \<Rightarrow> native_symbol_entry list \<Rightarrow> bool" where
  "first_is t q \<longleftrightarrow> (\<forall>e. t = Some e \<longrightarrow> tailq_first q = Some e)"

fun flush_ok :: "flush_pc \<Rightarrow> native_symbol_entry list \<Rightarrow> native_symbol_entry list \<Rightarrow> native_key list \<Rightarrow> bool" where
  "flush_ok Flush_enter q d v = (d = [] \<and> v = [])"
| "flush_ok (Flush_next t ret) q d v = (first_is t q \<and> regs_ok ret d v)"
| "flush_ok (Flush_register e t ret) q d v = (\<exists>r. q = e # r \<and> first_is t r \<and> regs_ok ret d v)"
| "flush_ok (Flush_unlink e t ret) q d v = (\<exists>r. q = e # r \<and> first_is t r \<and> regs_ok ret (d @ [e]) v)"
| "flush_ok (Flush_unlinking e t ret) q d v = (\<exists>r. q = e # r \<and> first_is t r \<and> regs_ok ret (d @ [e]) v)"
| "flush_ok (Flush_free e t ret) q d v = (first_is t q \<and> regs_ok ret d v)"
| "flush_ok (Flush_return ret) q d v = regs_ok ret d v"

fun agent_ok :: "agent_pc \<Rightarrow> native_symbol_entry list \<Rightarrow> native_symbol_entry list \<Rightarrow> native_key list \<Rightarrow> bool" where
  "agent_ok (Agent_flushing pc) q d v = flush_ok pc q d v"
| "agent_ok _ q d v = (d = [] \<and> v = [])"

text \<open>The queue is what was inserted less what was removed, in order.\<close>

definition inv_queue :: "sys \<Rightarrow> bool" where
  "inv_queue s \<longleftrightarrow> (\<exists>d. inserted s = d @ symbols s \<and> agent_ok (agent s) (symbols s) d (visited s))"

definition inv_flags :: "sys \<Rightarrow> bool" where
  "inv_flags s \<longleftrightarrow> (g_evp_agent_started (shared s) \<longleftrightarrow> agent s \<noteq> Agent_not_started) \<and>
     (\<forall>i e. clients s i = Some (Reg_unlock e) \<or> clients s i = Some (Reg_return (Some e)) \<longrightarrow> e \<in> set (inserted s))"

text \<open>How a registering thread moves before it takes the lock.\<close>

lemma reg_add_cases:
  assumes "reg_step env (Reg_add req) s = (pc, m)"
  obtains (refused) cs where "pc = Reg_return None" "m = s\<lparr>trace := trace s @ cs\<rparr>" "native_regs cs = []"
  | (allocated) e where "pc = Reg_lock e" "ne_block e = fresh s"
      "m = s\<lparr>trace := trace s @ [OS (Call_malloc Alloc_native_symbol_entry)], live := insert (fresh s) (live s),
             fresh := Suc (fresh s)\<rparr>"
proof -
  obtain mn p n where req: "req = (mn, p, n)" by (cases req)
  consider "mn = None \<or> p = None \<or> n = 0 \<or> \<not> env_malloc env (trace s) Alloc_native_symbol_entry"
    | name sy where "mn = Some name" "p = Some sy" "n \<noteq> 0" "env_malloc env (trace s) Alloc_native_symbol_entry"
    by (cases mn; cases p; blast)
  then show thesis
  proof cases
    case 1
    then have "\<exists>cs. pc = Reg_return None \<and> m = s\<lparr>trace := trace s @ cs\<rparr> \<and> native_regs cs = []"
      using assms req
      by (auto simp: c_malloc_def emit_def EVP_AGENT_ERR_def split: option.splits if_splits)
    then show ?thesis using refused by blast
  next
    case 2
    then show ?thesis using assms req by (intro allocated) (auto simp: c_malloc_def emit_def)
  qed
qed

text \<open>What the steps of the threads do to the queue, the flag and the registrations.\<close>

lemma visited_simps:
  "native_visited (s\<lparr>trace := trace s @ cs\<rparr>) = native_visited s @ native_regs cs"
  "native_visited (c_free (Some b) t) = native_visited t"
  "native_visited (t\<lparr>g_wasm_native_symbols := q\<rparr>) = native_visited t"
  "native_visited (t\<lparr>g_evp_agent_started := f\<rparr>) = native_visited t"
  "native_visited (emit c s) = native_visited s @ native_regs [c]"
  by (simp_all add: native_visited_def emit_def)

lemma reg_check_cases:
  assumes "reg_step env (Reg_check req) s = (pc, m)"
  obtains (started) "g_evp_agent_started s" "pc = Reg_return None"
      "m = emit (EVP_AGENT_ERR ''evp-agent.c'' 193 ''EVP Agent has already started'' []) s"
  | (not_started) "\<not> g_evp_agent_started s" "pc = Reg_add req" "m = s"
  using assms by (auto split: if_splits)

text \<open>The view of the shared memory that the invariants depend on.\<close>

lemma reg_step_view:
  assumes "reg_step env pc s = (pc', m)" "\<And>e. pc \<noteq> Reg_inserting e"
  shows "g_wasm_native_symbols m = g_wasm_native_symbols s" "g_evp_agent_started m = g_evp_agent_started s"
    "native_visited m = native_visited s"
  using assms
  by (cases pc; auto elim!: reg_add_cases reg_check_cases simp del: reg_step.simps(1,2)
      simp: visited_simps mutex_lock_def mutex_unlock_def edc_frame emit_def native_visited_def EVP_AGENT_ERR_def)+

lemma reg_step_visited:
  assumes "reg_step env pc s = (pc', m)"
  shows "native_visited m = native_visited s"
proof (cases "\<exists>e. pc = Reg_inserting e")
  case True
  with assms show ?thesis by (auto simp: visited_simps)
next
  case False
  then show ?thesis by (intro reg_step_view(3) [OF assms]) auto
qed

lemma inv_lock_unique:
  assumes "inv_lock s" "clients s i = Some pc" "reg_locked pc" "clients s j = Some pc'" "reg_locked pc'"
  shows "j = i"
proof -
  have "symbols_lock s = Some i" "symbols_lock s = Some j" using assms unfolding inv_lock_def by blast+
  then show ?thesis by simp
qed

lemma race_simps [simp]:
  "g_wasm_native_symbols (race b s) = g_wasm_native_symbols s" "g_evp_agent_started (race b s) = g_evp_agent_started s"
  "native_visited (race b s) = native_visited s" "race False s = s" "race True s = undefined_behaviour s"
  by (simp_all add: race_def undefined_behaviour_def native_visited_def)

lemma inv_lock_step:
  assumes "sys_step env s t" "inv_lock s"
  shows "inv_lock t"
  using assms
proof (cases rule: sys_step.cases)
  case (reg_check i req pc m)
  then show ?thesis using assms(2) by (auto simp: inv_lock_def split: if_splits)
next
  case (reg_add i req pc m)
  from reg_add(3) show ?thesis
    by (cases rule: reg_add_cases) (use reg_add assms(2) in \<open>auto simp: inv_lock_def\<close>)
next
  case (reg_lock i e pc m)
  then show ?thesis using assms(2) by (auto simp: inv_lock_def)
next
  case (reg_insert i e pc m)
  then show ?thesis using assms(2) by (auto simp: inv_lock_def)
next
  case (reg_inserted i e pc m)
  then show ?thesis using assms(2) by (auto simp: inv_lock_def)
next
  case (reg_unlock i e pc m)
  have "\<not> (\<exists>pc. clients t j = Some pc \<and> reg_locked pc)" for j
  proof (cases "j = i")
    case True
    then show ?thesis using reg_unlock by auto
  next
    case False
    then show ?thesis using inv_lock_unique [OF assms(2) reg_unlock(2), of j] reg_unlock(1) by auto
  qed
  then show ?thesis using reg_unlock(1) by (simp add: inv_lock_def)
next
  case (reg_return i r)
  then show ?thesis using assms(2) by (auto simp: inv_lock_def)
qed (auto simp: inv_lock_def)

lemma flush_step_flag: "flush_step env pc s = (pc', m) \<Longrightarrow> g_evp_agent_started m = g_evp_agent_started s"
  by (cases "(env, pc, s)" rule: flush_step.cases)
    (auto simp: emit_def c_free_def undefined_behaviour_def Let_def split: if_splits)

lemma inv_flags_step:
  assumes "sys_step env s t" "inv_flags s"
  shows "inv_flags t"
  using assms
proof (cases rule: sys_step.cases)
  case (reg_check i req pc m)
  with reg_step_view(2) [OF reg_check(3)] assms(2) show ?thesis by (auto simp: inv_flags_def split: if_splits)
next
  case (reg_add i req pc m)
  from reg_add(3) show ?thesis
    by (cases rule: reg_add_cases) (use reg_add assms(2) in \<open>auto simp: inv_flags_def\<close>)
next
  case (reg_lock i e pc m)
  with reg_step_view(2) [OF reg_lock(4)] assms(2) show ?thesis by (auto simp: inv_flags_def)
next
  case (reg_insert i e pc m)
  then show ?thesis using assms(2) by (auto simp: inv_flags_def)
next
  case (reg_inserted i e pc m)
  then show ?thesis using assms(2) by (auto simp: inv_flags_def)
next
  case (reg_unlock i e pc m)
  with reg_step_view(2) [OF reg_unlock(3)] assms(2) show ?thesis by (auto simp: inv_flags_def)
next
  case (flush pc pc' m)
  with flush_step_flag [OF flush(3)] assms(2) show ?thesis by (auto simp: inv_flags_def)
qed (auto simp: inv_flags_def undisturbed_def)

lemma first_is_append: "first_is t q \<Longrightarrow> first_is t (q @ [e])"
  by (cases q) (auto simp: first_is_def)

lemma flush_ok_append: "flush_ok pc q d v \<Longrightarrow> flush_ok pc (q @ [e]) d v"
  by (cases pc) (auto intro: first_is_append)

lemma agent_ok_append: "agent_ok pc q d v \<Longrightarrow> agent_ok pc (q @ [e]) d v"
  by (cases pc) (auto intro: flush_ok_append)

lemma flush_step_queue:
  assumes "flush_step env pc s = (pc', m)" "flush_ok pc (g_wasm_native_symbols s) d (native_visited s)"
    and "distinct (map ne_block (g_wasm_native_symbols s))"
  shows "\<exists>d'. d @ g_wasm_native_symbols s = d' @ g_wasm_native_symbols m \<and>
    flush_ok pc' (g_wasm_native_symbols m) d' (native_visited m)"
proof (cases "(env, pc, s)" rule: flush_step.cases)
  case (1 env' s')
  with assms(1,2) show ?thesis by (intro exI [of _ d]) (auto simp: first_is_def regs_ok_def)
next
  case (3 env' e ret s')
  with assms obtain r where "g_wasm_native_symbols s = e # r"
    by (cases "g_wasm_native_symbols s") (auto simp: first_is_def)
  with 3 assms(1,2) show ?thesis by (intro exI [of _ d]) (auto simp: first_is_def)
next
  case (4 env' e tmp ret s')
  with assms(1,2) show ?thesis
    by (intro exI [of _ d])
      (auto simp: visited_simps edc_frame regs_ok_def entry_key_def Let_def EVP_AGENT_ERR_def split: if_splits)
next
  case (6 env' e tmp ret s')
  with assms(2) obtain r where r: "g_wasm_native_symbols s = e # r" "first_is tmp r"
    "regs_ok ret (d @ [e]) (native_visited s)" by auto
  have "filter (\<lambda>x. ne_block x \<noteq> ne_block e) r = r" using r(1) assms(3) by (intro filter_other_blocks) simp
  with 6 assms(1) r show ?thesis by (intro exI [of _ "d @ [e]"]) (auto simp: visited_simps)
qed (use assms in \<open>auto simp: visited_simps edc_frame\<close>)

lemma inv_queue_step:
  assumes "sys_step env s t" "inv_queue s" "inv_mem s"
  shows "inv_queue t"
  using assms(1)
proof (cases rule: sys_step.cases)
  case (reg_check i req pc m)
  with reg_step_view(1,3) [OF reg_check(3)] assms(2) show ?thesis by (simp add: inv_queue_def)
next
  case (reg_add i req pc m)
  with reg_step_view(1,3) [OF reg_add(3)] assms(2) show ?thesis by (simp add: inv_queue_def)
next
  case (reg_lock i e pc m)
  with reg_step_view(1,3) [OF reg_lock(4)] assms(2) show ?thesis by (simp add: inv_queue_def)
next
  case (reg_insert i e pc m)
  with reg_step_view(1,3) [OF reg_insert(3)] assms(2) show ?thesis by (simp add: inv_queue_def)
next
  case (reg_inserted i e pc m)
  with assms(2) show ?thesis by (auto simp: inv_queue_def visited_simps agent_ok_append)
next
  case (reg_unlock i e pc m)
  with reg_step_view(1,3) [OF reg_unlock(3)] assms(2) show ?thesis by (simp add: inv_queue_def)
next
  case (flush pc pc' m)
  from assms(2) flush(2) obtain d where "inserted s = d @ symbols s" "flush_ok pc (symbols s) d (visited s)"
    by (auto simp: inv_queue_def)
  moreover from assms(3) have "distinct (map ne_block (symbols s))" by (simp add: inv_mem_def)
  ultimately show ?thesis using flush_step_queue [OF flush(3)] flush(1) by (auto simp: inv_queue_def)
qed (use assms(2) in \<open>auto simp: inv_queue_def undisturbed_def visited_simps\<close>)

text \<open>Memory: a thread gives up its entry when it inserts it, and the agent when it frees it.\<close>

lemma inv_mem_view:
  assumes "inv_mem s" "symbols t = symbols s" "heap_wf (shared t)" "ub (shared t) = ub (shared s)"
    and "entry_blocks s \<inter> live (shared s) \<subseteq> live (shared t)"
    and "\<And>i. client_entry t i = client_entry s i" "agent_pc_entry (agent t) = agent_pc_entry (agent s)"
  shows "inv_mem t"
proof -
  have "entry_blocks t = entry_blocks s" using assms(2,6,7) by (simp add: entry_blocks_def queue_blocks_def)
  with assms show ?thesis by (auto simp: inv_mem_def queue_blocks_def)
qed

lemma inv_mem_add:
  assumes "inv_mem s" "clients s i = Some (Reg_add req)" "reg_step env (Reg_add req) (shared s) = (pc, m)"
    and "t = s\<lparr>shared := m, clients := (clients s)(i \<mapsto> pc)\<rparr>"
  shows "inv_mem t"
  using assms(3)
proof (cases rule: reg_add_cases)
  case (refused cs)
  have "client_entry t j = client_entry s j" for j using assms(2,4) refused(1) by (simp add: client_entry_def)
  with assms(1,4) refused show ?thesis by (intro inv_mem_view [OF assms(1)]) (auto simp: inv_mem_def heap_wf_def)
next
  case (allocated e)
  have h: "heap_wf (shared s)" "entry_blocks s \<subseteq> live (shared s)" using assms(1) by (auto simp: inv_mem_def)
  then have f: "fresh (shared s) \<notin> entry_blocks s" using heap_wf_fresh by blast
  have ce: "client_entry t j = (if j = i then Some e else client_entry s j)" for j
    using assms(4) allocated(1) by (simp add: client_entry_def)
  have ci: "client_entry s i = None" using assms(2) by (simp add: client_entry_def)
  have v: "symbols t = symbols s" "agent t = agent s" "live (shared t) = insert (fresh (shared s)) (live (shared s))"
    "ub (shared t) = ub (shared s)"
    using assms(4) allocated(3) by simp_all
  have "{ne_block f | f j. client_entry t j = Some f} =
      insert (fresh (shared s)) {ne_block f | f j. client_entry s j = Some f}"
    using ci allocated(2) by (auto simp: ce; metis option.distinct(1))
  then have b: "entry_blocks t = insert (fresh (shared s)) (entry_blocks s)"
    by (simp add: entry_blocks_def queue_blocks_def v)
  have "heap_wf (shared t)" using h(1) assms(4) allocated(3) by (auto simp: heap_wf_def less_Suc_eq)
  moreover have "\<forall>j f. client_entry s j = Some f \<longrightarrow> ne_block f \<noteq> fresh (shared s)"
    "\<forall>f. agent_pc_entry (agent s) = Some f \<longrightarrow> ne_block f \<noteq> fresh (shared s)"
    using f by (auto simp: entry_blocks_def)
  moreover have "fresh (shared s) \<notin> queue_blocks (shared s)" using f by (auto simp: entry_blocks_def)
  ultimately show ?thesis
    using assms(1) allocated(2) h(2) by (auto simp: inv_mem_def queue_blocks_def v b ce split: if_splits) blast
qed

lemma inv_mem_insert:
  assumes "inv_mem s" "clients s i = Some (Reg_inserting e)"
    and "t = s\<lparr>shared := (shared s)\<lparr>g_wasm_native_symbols := symbols s @ [e]\<rparr>,
      clients := (clients s)(i \<mapsto> Reg_unlock e), inserted := ins\<rparr>"
  shows "inv_mem t"
proof -
  have ci: "client_entry s i = Some e" using assms(2) by (simp add: client_entry_def)
  have ce: "client_entry t j = (if j = i then None else client_entry s j)" for j
    using assms(3) by (simp add: client_entry_def)
  have v: "symbols t = symbols s @ [e]" "agent t = agent s" "live (shared t) = live (shared s)"
    "ub (shared t) = ub (shared s)" "heap_wf (shared t) = heap_wf (shared s)"
    using assms(3) by (simp_all add: heap_wf_def)
  have q: "queue_blocks (shared t) = insert (ne_block e) (queue_blocks (shared s))"
    by (simp add: queue_blocks_def v)
  have b: "entry_blocks t \<subseteq> entry_blocks s" using ci by (auto simp: entry_blocks_def q v ce split: if_splits)
  have "ne_block e \<notin> queue_blocks (shared s)" using assms(1) ci by (auto simp: inv_mem_def)
  then have "distinct (map ne_block (symbols t))" using assms(1) by (auto simp: inv_mem_def v queue_blocks_def)
  moreover have "ne_block f \<noteq> ne_block e" if "client_entry t j = Some f" for j f
  proof -
    have "j \<noteq> i" "client_entry s j = Some f" using that by (auto simp: ce split: if_splits)
    then show ?thesis using assms(1) ci unfolding inv_mem_def by metis
  qed
  moreover have "ne_block f \<noteq> ne_block e" if "agent_pc_entry (agent t) = Some f" for f
    using assms(1) ci that unfolding inv_mem_def v by metis
  ultimately show ?thesis
    using assms(1) b by (auto simp: inv_mem_def q v ce split: if_splits)
qed

lemma inv_mem_flush:
  assumes "inv_mem s" "inv_queue s" "agent s = Agent_flushing pc" "flush_step env pc (shared s) = (pc', m)"
    and "t = s\<lparr>shared := m, agent := Agent_flushing pc'\<rparr>"
  shows "inv_mem t"
proof -
  have ce: "client_entry t j = client_entry s j" for j using assms(5) by (simp add: client_entry_def)
  have same: "inv_mem t" if "symbols t = symbols s" "live m = live (shared s)" "fresh m = fresh (shared s)"
    "ub m = ub (shared s)" "agent_pc_entry (agent t) = agent_pc_entry (agent s)"
    using that assms(1,5) by (intro inv_mem_view [OF assms(1) _ _ _ _ ce]) (auto simp: inv_mem_def heap_wf_def)
  show ?thesis
  proof (cases "(env, pc, shared s)" rule: flush_step.cases)
    case (6 env' e tmp ret s')
    then have m: "m = (shared s)\<lparr>g_wasm_native_symbols := filter (\<lambda>x. ne_block x \<noteq> ne_block e) (symbols s)\<rparr>"
      and pc': "pc' = Flush_free e tmp ret" using assms(4) by auto
    obtain r where r: "symbols s = e # r" using assms(2,3) 6 by (auto simp: inv_queue_def)
    have d: "distinct (map ne_block (e # r))" using assms(1) r by (simp add: inv_mem_def)
    then have v: "symbols t = r" "agent_pc_entry (agent t) = Some e" "live (shared t) = live (shared s)"
      "ub (shared t) = ub (shared s)" "heap_wf (shared t) = heap_wf (shared s)"
      using r filter_other_blocks [of e r] by (simp_all add: assms(5) m pc' heap_wf_def)
    have q: "queue_blocks (shared s) = insert (ne_block e) (queue_blocks (shared t))"
      by (simp add: queue_blocks_def v r)
    have "entry_blocks t \<subseteq> entry_blocks s" by (auto simp: entry_blocks_def q v ce)
    moreover have "ne_block e \<notin> queue_blocks (shared t)" using d by (simp add: queue_blocks_def v)
    ultimately show ?thesis using assms(1) d by (auto simp: inv_mem_def q v ce)
  next
    case (7 env' e tmp ret s')
    then have m: "m = c_free (Some (ne_block e)) (shared s)" and pc': "pc' = Flush_next tmp ret"
      using assms(4) by auto
    have e: "agent_pc_entry (agent s) = Some e" using assms(3) 7 by simp
    then have l: "ne_block e \<in> live (shared s)" using assms(1) by (auto simp: inv_mem_def entry_blocks_def)
    have v: "symbols t = symbols s" "agent_pc_entry (agent t) = None" "live (shared t) = live (shared s) - {ne_block e}"
      "ub (shared t) = ub (shared s)" "queue_blocks (shared t) = queue_blocks (shared s)"
      using l by (simp_all add: assms(5) m pc' edc_frame queue_blocks_def)
    have "ne_block e \<notin> entry_blocks t" using assms(1) e unfolding inv_mem_def entry_blocks_def v ce by fastforce
    moreover have "entry_blocks t \<subseteq> entry_blocks s" by (auto simp: entry_blocks_def v ce)
    moreover have "heap_wf (shared t)" using assms(1) by (auto simp: inv_mem_def heap_wf_def assms(5) m)
    ultimately show ?thesis using assms(1) by (auto simp: inv_mem_def v ce)
  qed (use assms(3-5) same in \<open>auto simp: edc_frame Let_def split: if_splits\<close>)
qed

text \<open>A registration is under way: it has passed the check of \<open>started\<close> and not yet inserted its entry. A
  state is calm when the flush is not running or no registration is under way; no overlap happens
  in a step from a calm state.\<close>

definition in_flight :: "sys \<Rightarrow> nat \<Rightarrow> bool" where
  "in_flight s i \<longleftrightarrow> (\<exists>r. clients s i = Some (Reg_add r)) \<or> client_entry s i \<noteq> None"

definition calm :: "sys \<Rightarrow> bool" where
  "calm s \<longleftrightarrow> (\<forall>pc. agent s \<noteq> Agent_flushing pc) \<or> (\<forall>i. \<not> in_flight s i)"

lemma calm_no_overlap:
  assumes "calm s"
  shows "clients s i = Some (Reg_insert e) \<Longrightarrow> \<not> unlinking (agent s)"
    and "agent s = Agent_flushing pc \<Longrightarrow> \<not> inserting s"
proof -
  have fl: "in_flight s i" if "clients s i = Some (Reg_insert e) \<or> clients s i = Some (Reg_inserting e)" for i e
    using that by (auto simp: in_flight_def client_entry_def)
  show "\<not> unlinking (agent s)" if "clients s i = Some (Reg_insert e)"
    using assms fl that by (cases "agent s" rule: unlinking.cases) (auto simp: calm_def)
  show "\<not> inserting s" if "agent s = Agent_flushing pc"
    using assms fl that by (auto simp: calm_def inserting_def)
qed

lemma inv_mem_step:
  assumes "sys_step env s t" "inv_mem s" "inv_queue s" "calm s"
  shows "inv_mem t"
  using assms(1)
proof (cases rule: sys_step.cases)
  case (reg_call i req)
  then show ?thesis by (intro inv_mem_view [OF assms(2)]) (use assms(2) in \<open>auto simp: inv_mem_def client_entry_def\<close>)
next
  case (reg_check i req pc m)
  from reg_check(3) show ?thesis
    by (cases rule: reg_check_cases; intro inv_mem_view [OF assms(2)])
      (use assms(2) reg_check in \<open>auto simp: inv_mem_def client_entry_def heap_wf_def edc_frame\<close>)
next
  case (reg_add i req pc m)
  show ?thesis by (rule inv_mem_add [OF assms(2) reg_add(2,3,1)])
next
  case (reg_lock i e pc m)
  then show ?thesis
    by (intro inv_mem_view [OF assms(2)])
      (use assms(2) in \<open>auto simp: inv_mem_def client_entry_def heap_wf_def mutex_lock_def edc_frame\<close>)
next
  case (reg_insert i e pc m)
  then show ?thesis
    using calm_no_overlap(1) [OF assms(4) reg_insert(2)]
    by (intro inv_mem_view [OF assms(2)]) (use assms(2) in \<open>auto simp: inv_mem_def client_entry_def\<close>)
next
  case (reg_inserted i e pc m)
  then show ?thesis using inv_mem_insert [OF assms(2) reg_inserted(2)] by simp
next
  case (reg_unlock i e pc m)
  then show ?thesis
    by (intro inv_mem_view [OF assms(2)])
      (use assms(2) in \<open>auto simp: inv_mem_def client_entry_def heap_wf_def mutex_unlock_def edc_frame\<close>)
next
  case (reg_return i r)
  then show ?thesis by (intro inv_mem_view [OF assms(2)]) (use assms(2) in \<open>auto simp: inv_mem_def client_entry_def\<close>)
next
  case (flush pc pc' m)
  have "t = s\<lparr>shared := m, agent := Agent_flushing pc'\<rparr>"
    using flush(1) calm_no_overlap(2) [OF assms(4) flush(2)] by simp
  then show ?thesis by (rule inv_mem_flush [OF assms(2,3) flush(2,3)])
next
  case (other m)
  then show ?thesis
    by (intro inv_mem_view [OF assms(2)]) (use assms(2) in \<open>auto simp: inv_mem_def client_entry_def undisturbed_def\<close>)
next
  case agent_start
  then show ?thesis
    by (intro inv_mem_view [OF assms(2)]) (use assms(2) in \<open>auto simp: inv_mem_def client_entry_def heap_wf_def\<close>)
next
  case agent_fail
  then show ?thesis by (intro inv_mem_view [OF assms(2)]) (use assms(2) in \<open>auto simp: inv_mem_def client_entry_def\<close>)
next
  case agent_flush
  then show ?thesis by (intro inv_mem_view [OF assms(2)]) (use assms(2) in \<open>auto simp: inv_mem_def client_entry_def\<close>)
qed

text \<open>A transition system with an inductive invariant.\<close>

locale step_invariant =
  fixes init :: "'a \<Rightarrow> bool" and step :: "'a \<Rightarrow> 'a \<Rightarrow> bool" and inv :: "'a \<Rightarrow> bool"
  assumes init_inv: "init s \<Longrightarrow> inv s"
    and step_inv: "inv s \<Longrightarrow> step s t \<Longrightarrow> inv t"
begin

lemma steps_inv: "step\<^sup>*\<^sup>* s t \<Longrightarrow> inv s \<Longrightarrow> inv t"
  by (induction rule: rtranclp_induct) (auto intro: step_inv)

lemma reachable_inv: "init s \<Longrightarrow> step\<^sup>*\<^sup>* s t \<Longrightarrow> inv t"
  by (rule steps_inv) (auto intro: init_inv)

end

definition sys_inv :: "sys \<Rightarrow> bool" where
  "sys_inv s \<longleftrightarrow> inv_mem s \<and> inv_lock s \<and> inv_queue s \<and> inv_flags s"

lemma sys_inv_step: "sys_step env s t \<Longrightarrow> sys_inv s \<Longrightarrow> calm s \<Longrightarrow> sys_inv t"
  by (auto simp: sys_inv_def intro: inv_mem_step inv_lock_step inv_queue_step inv_flags_step)

lemma sys_init_inv:
  assumes "sys_init s"
  shows "sys_inv s"
proof -
  have "client_entry s i = None" for i using assms by (simp add: sys_init_def client_entry_def)
  with assms show ?thesis
    by (auto simp: sys_init_def sys_inv_def inv_mem_def inv_lock_def inv_queue_def inv_flags_def entry_blocks_def
        queue_blocks_def)
qed

text \<open>Until the agent thread begins the flush.\<close>

lemma agent_keeps_flushing:
  "sys_step env s t \<Longrightarrow> agent s = Agent_flushing pc \<Longrightarrow> \<exists>pc'. agent t = Agent_flushing pc'"
  by (cases rule: sys_step.cases) auto

lemma step_before_flush:
  assumes "sys_step env s t" "\<forall>pc. agent t \<noteq> Agent_flushing pc"
  shows "calm s"
  using agent_keeps_flushing [OF assms(1)] assms(2) unfolding calm_def by blast

interpretation before_flush: step_invariant sys_init "sys_step env"
  "\<lambda>s. (\<forall>pc. agent s \<noteq> Agent_flushing pc) \<longrightarrow> sys_inv s" for env
proof (unfold_locales, goal_cases)
  case (1 s)
  then show ?case using sys_init_inv by blast
next
  case (2 s t)
  then show ?case using agent_keeps_flushing step_before_flush sys_inv_step by blast
qed

text \<open>After a quiet start: no registration that passed the check of \<open>started\<close> is still under way.\<close>

fun flush_complete :: "flush_pc \<Rightarrow> native_symbol_entry list \<Rightarrow> bool" where
  "flush_complete Flush_enter q = True"
| "flush_complete (Flush_next t ret) q = (t = tailq_first q)"
| "flush_complete (Flush_register e t ret) q = (t = tailq_first (tl q))"
| "flush_complete (Flush_unlink e t ret) q = (t = tailq_first (tl q))"
| "flush_complete (Flush_unlinking e t ret) q = (t = tailq_first (tl q))"
| "flush_complete (Flush_free e t ret) q = (t = tailq_first q)"
| "flush_complete (Flush_return ret) q = (q = [])"

definition quiet_inv :: "native_symbol_entry list \<Rightarrow> sys \<Rightarrow> bool" where
  "quiet_inv es s \<longleftrightarrow> sys_inv s \<and> agent s \<noteq> Agent_not_started \<and> (\<forall>i. \<not> in_flight s i) \<and> inserted s = es \<and>
     (\<forall>pc. agent s = Agent_flushing pc \<longrightarrow> flush_complete pc (symbols s))"

lemma flush_step_complete:
  assumes "flush_step env pc s = (pc', m)" "flush_complete pc (g_wasm_native_symbols s)"
    and "flush_ok pc (g_wasm_native_symbols s) d v" "distinct (map ne_block (g_wasm_native_symbols s))"
  shows "flush_complete pc' (g_wasm_native_symbols m)"
proof (cases "(env, pc, s)" rule: flush_step.cases)
  case (2 env' ret s')
  with assms show ?thesis by (cases "g_wasm_native_symbols s") auto
next
  case (3 env' e ret s')
  with assms show ?thesis by (cases "g_wasm_native_symbols s") auto
next
  case (6 env' e tmp ret s')
  with assms(3) obtain r where r: "g_wasm_native_symbols s = e # r" by auto
  have "filter (\<lambda>x. ne_block x \<noteq> ne_block e) r = r" using r assms(4) by (intro filter_other_blocks) simp
  with 6 assms(1,2) r show ?thesis by auto
qed (use assms in \<open>auto simp: edc_frame Let_def split: if_splits\<close>)

lemma quiet_inv_step:
  assumes "quiet_inv es s" "sys_step env s t"
  shows "quiet_inv es t"
proof -
  have calm: "calm s" using assms(1) by (simp add: quiet_inv_def calm_def)
  have inv: "sys_inv s" "sys_inv t" using assms sys_inv_step calm by (auto simp: quiet_inv_def)
  have st: "g_evp_agent_started (shared s)" using assms(1) inv(1) by (simp add: quiet_inv_def sys_inv_def inv_flags_def)
  have nf: "clients s i \<noteq> Some (Reg_add r)" "clients s i \<noteq> Some (Reg_lock e)" "clients s i \<noteq> Some (Reg_insert e)"
    "clients s i \<noteq> Some (Reg_inserting e)" for i r e
  proof -
    have "\<not> in_flight s i" using assms(1) by (simp add: quiet_inv_def)
    then show "clients s i \<noteq> Some (Reg_add r)" "clients s i \<noteq> Some (Reg_lock e)" "clients s i \<noteq> Some (Reg_insert e)"
      "clients s i \<noteq> Some (Reg_inserting e)"
      by (cases r, auto simp: in_flight_def client_entry_def)+
  qed
  have q: "agent s \<noteq> Agent_not_started" "\<forall>i. \<not> in_flight s i" "inserted s = es"
    "\<And>pc. agent s = Agent_flushing pc \<Longrightarrow> flush_complete pc (symbols s)"
    using assms(1) by (auto simp: quiet_inv_def)
  from assms(2) show ?thesis
  proof (cases rule: sys_step.cases)
    case (reg_check i req pc m)
    then have "pc = Reg_return None" "symbols t = symbols s" using st by (auto simp: edc_frame)
    with reg_check inv(2) q show ?thesis by (auto simp: quiet_inv_def in_flight_def client_entry_def)
  next
    case (reg_unlock i e pc m)
    with inv(2) q show ?thesis
      by (auto simp: quiet_inv_def in_flight_def client_entry_def mutex_unlock_def edc_frame)
  next
    case (flush pc pc' m)
    obtain d where "flush_ok pc (symbols s) d (visited s)" "distinct (map ne_block (symbols s))"
      using inv(1) flush(2) by (auto simp: sys_inv_def inv_queue_def inv_mem_def)
    from flush_step_complete [OF flush(3) q(4) [OF flush(2)] this] flush inv(2) q show ?thesis
      by (auto simp: quiet_inv_def in_flight_def client_entry_def)
  next
    case (other m)
    with inv(2) q show ?thesis by (auto simp: quiet_inv_def in_flight_def client_entry_def undisturbed_def)
  qed (use inv(2) q nf in \<open>auto simp: quiet_inv_def in_flight_def client_entry_def\<close>)
qed

interpretation quiet: step_invariant "quiet_inv es" "sys_step env" "quiet_inv es" for env es
  by unfold_locales (auto intro: quiet_inv_step)

text \<open>Once the flush has returned nothing more reaches the runtime.\<close>

interpretation flushed: step_invariant "\<lambda>s. agent s = Agent_flushing (Flush_return ret) \<and> visited s = v" "sys_step env"
  "\<lambda>s. agent s = Agent_flushing (Flush_return ret) \<and> visited s = v" for env ret v
proof (unfold_locales, goal_cases)
  case (1 s)
  then show ?case .
next
  case (2 s t)
  from 2(2) show ?case
    by (cases rule: sys_step.cases)
      (use 2(1) in \<open>auto simp: visited_simps undisturbed_def simp del: reg_step.simps dest: reg_step_visited\<close>)
qed

section \<open>A registration that overtakes the flush\<close>

lemma sys_add:
  assumes "clients s i = Some (Reg_add (Some m, Some p, n))" "symbols_lock s = None" "\<And>h a. env_malloc env h a" "n \<noteq> 0"
    and "\<not> unlinking (agent s)"
  shows "\<exists>t e. (sys_step env)\<^sup>*\<^sup>* s t \<and> clients t = (clients s)(i \<mapsto> Reg_return (Some e)) \<and> entry_key e = (m, p, n) \<and>
    agent t = agent s \<and> symbols t = symbols s @ [e] \<and> inserted t = inserted s @ [e] \<and> visited t = visited s \<and>
    symbols_lock t = None \<and> g_evp_agent_started (shared t) = g_evp_agent_started (shared s) \<and>
    ub (shared t) = ub (shared s)"
proof -
  obtain e mem where a: "reg_step env (Reg_add (Some m, Some p, n)) (shared s) = (Reg_lock e, mem)"
    "entry_key e = (m, p, n)" "ub mem = ub (shared s)"
    using assms(3,4) by (simp add: c_malloc_def entry_key_def)
  define s1 where "s1 = s\<lparr>shared := mem, clients := (clients s)(i \<mapsto> Reg_lock e)\<rparr>"
  define s2 where "s2 = s1\<lparr>shared := mutex_lock g_wasm_native_symbols_lock (shared s1),
    clients := (clients s1)(i \<mapsto> Reg_insert e), symbols_lock := Some i\<rparr>"
  define s2' where "s2' = s2\<lparr>shared := race (unlinking (agent s2)) (shared s2),
    clients := (clients s2)(i \<mapsto> Reg_inserting e)\<rparr>"
  define s3 where "s3 = s2'\<lparr>shared := (shared s2')\<lparr>g_wasm_native_symbols := symbols s2' @ [e]\<rparr>,
    clients := (clients s2')(i \<mapsto> Reg_unlock e), inserted := inserted s2' @ [e]\<rparr>"
  define s4 where "s4 = s3\<lparr>shared := mutex_unlock g_wasm_native_symbols_lock (shared s3),
    clients := (clients s3)(i \<mapsto> Reg_return (Some e)), symbols_lock := None\<rparr>"
  have "sys_step env s s1" unfolding s1_def by (rule reg_add [OF assms(1) a(1)])
  moreover have "sys_step env s1 s2" unfolding s2_def by (rule reg_lock [of _ i e]) (simp_all add: s1_def assms(2))
  moreover have "sys_step env s2 s2'" unfolding s2'_def by (rule reg_insert [of _ i e]) (simp_all add: s2_def)
  moreover have "sys_step env s2' s3" unfolding s3_def by (rule reg_inserted [of _ i e]) (simp_all add: s2'_def)
  moreover have "sys_step env s3 s4" unfolding s4_def by (rule reg_unlock [of _ i e]) (simp_all add: s3_def)
  ultimately have "(sys_step env)\<^sup>*\<^sup>* s s4" by (meson rtranclp.rtrancl_into_rtrancl rtranclp.rtrancl_refl)
  moreover have "clients s4 = (clients s)(i \<mapsto> Reg_return (Some e))" "agent s4 = agent s" "symbols s4 = symbols s @ [e]"
    "inserted s4 = inserted s @ [e]" "visited s4 = visited s" "symbols_lock s4 = None"
    "g_evp_agent_started (shared s4) = g_evp_agent_started (shared s)" "ub (shared s4) = ub (shared s)"
    using reg_step_view [OF a(1)] a(3) assms(5)
    by (simp_all add: s4_def s3_def s2'_def s2_def s1_def mutex_lock_def mutex_unlock_def native_visited_def emit_def)
  ultimately show ?thesis using a(2) by blast
qed

lemma lost_registration:
  assumes "sys_init s0" "\<And>h a. env_malloc env h a" "n \<noteq> 0"
  shows "\<exists>s e. (sys_step env)\<^sup>*\<^sup>* s0 s \<and> clients s i = Some (Reg_return (Some e)) \<and> entry_key e = (m, p, n) \<and>
    agent s = Agent_flushing (Flush_return 0) \<and> visited s = [] \<and> \<not> ub (shared s)"
proof -
  have i0: "clients s0 i = None" "\<not> g_evp_agent_started (shared s0)" "agent s0 = Agent_not_started" "symbols s0 = []"
    "symbols_lock s0 = None" "visited s0 = []" "\<And>j. clients s0 j = None" "\<not> ub (shared s0)"
    using assms(1) by (simp_all add: sys_init_def)
  let ?req = "(Some m, Some p, n)"
  define s1 where "s1 = s0\<lparr>clients := (clients s0)(i \<mapsto> Reg_check ?req)\<rparr>"
  define s2 where "s2 = s1\<lparr>shared := shared s1, clients := (clients s1)(i \<mapsto> Reg_add ?req)\<rparr>"
  define s3 where "s3 = s2\<lparr>shared := (shared s2)\<lparr>g_evp_agent_started := True\<rparr>, agent := Agent_starting\<rparr>"
  define s4 where "s4 = s3\<lparr>agent := Agent_flushing Flush_enter\<rparr>"
  define s5 where "s5 = s4\<lparr>shared := shared s4, agent := Agent_flushing (Flush_next None 0)\<rparr>"
  define s6 where "s6 = s5\<lparr>shared := shared s5, agent := Agent_flushing (Flush_return 0)\<rparr>"
  have "sys_step env s0 s1" unfolding s1_def by (rule reg_call) (simp add: i0)
  moreover have "sys_step env s1 s2" unfolding s2_def by (rule reg_check [of _ i ?req]) (simp_all add: s1_def i0)
  moreover have "sys_step env s2 s3" unfolding s3_def by (rule agent_start) (simp add: s2_def s1_def i0)
  moreover have "sys_step env s3 s4" unfolding s4_def by (rule agent_flush) (simp add: s3_def)
  moreover have "sys_step env s4 s5"
  proof -
    have "\<not> inserting s4" by (simp add: inserting_def s4_def s3_def s2_def s1_def i0)
    then show ?thesis
      using flush [of s4 Flush_enter env] by (simp add: s5_def s4_def s3_def s2_def s1_def i0)
  qed
  moreover have "sys_step env s5 s6"
    using flush [of s5 "Flush_next None 0" env] by (simp add: s6_def s5_def)
  ultimately have r: "(sys_step env)\<^sup>*\<^sup>* s0 s6" by (meson rtranclp.rtrancl_into_rtrancl rtranclp.rtrancl_refl)
  have s6: "clients s6 i = Some (Reg_add ?req)" "symbols_lock s6 = None" "agent s6 = Agent_flushing (Flush_return 0)"
    "visited s6 = []" "\<not> ub (shared s6)" "\<not> unlinking (agent s6)"
    by (simp_all add: s6_def s5_def s4_def s3_def s2_def s1_def i0 visited_simps)
  from sys_add [OF s6(1,2) assms(2,3) s6(6)] obtain t e where "(sys_step env)\<^sup>*\<^sup>* s6 t"
    "clients t = (clients s6)(i \<mapsto> Reg_return (Some e))" "entry_key e = (m, p, n)" "agent t = agent s6"
    "visited t = visited s6" "ub (shared t) = ub (shared s6)"
    by blast
  with r s6 show ?thesis by (intro exI [of _ t] exI [of _ e]) (auto intro: rtranclp_trans)
qed

text \<open>An insertion that is open when the flush begins.\<close>

lemma open_insertion:
  assumes "sys_init s0" "\<And>h a. env_malloc env h a" "n \<noteq> 0"
  shows "\<exists>s e. (sys_step env)\<^sup>*\<^sup>* s0 s \<and> \<not> ub (shared s) \<and> symbols_lock s = Some i \<and>
    clients s i = Some (Reg_inserting e) \<and> entry_key e = (m, p, n) \<and> agent s = Agent_flushing Flush_enter"
proof -
  have i0: "clients s0 i = None" "\<not> g_evp_agent_started (shared s0)" "agent s0 = Agent_not_started"
    "symbols_lock s0 = None" "\<not> ub (shared s0)"
    using assms(1) by (simp_all add: sys_init_def)
  let ?req = "(Some m, Some p, n)"
  obtain e mem where a: "reg_step env (Reg_add ?req) (shared s0) = (Reg_lock e, mem)" "entry_key e = (m, p, n)"
    "ub mem = ub (shared s0)"
    using assms(2,3) by (simp add: c_malloc_def entry_key_def)
  define s1 where "s1 = s0\<lparr>clients := (clients s0)(i \<mapsto> Reg_check ?req)\<rparr>"
  define s2 where "s2 = s1\<lparr>shared := shared s1, clients := (clients s1)(i \<mapsto> Reg_add ?req)\<rparr>"
  define s3 where "s3 = s2\<lparr>shared := mem, clients := (clients s2)(i \<mapsto> Reg_lock e)\<rparr>"
  define s4 where "s4 = s3\<lparr>shared := mutex_lock g_wasm_native_symbols_lock (shared s3),
    clients := (clients s3)(i \<mapsto> Reg_insert e), symbols_lock := Some i\<rparr>"
  define s5 where "s5 = s4\<lparr>shared := race (unlinking (agent s4)) (shared s4),
    clients := (clients s4)(i \<mapsto> Reg_inserting e)\<rparr>"
  define s6 where "s6 = s5\<lparr>shared := (shared s5)\<lparr>g_evp_agent_started := True\<rparr>, agent := Agent_starting\<rparr>"
  define s7 where "s7 = s6\<lparr>agent := Agent_flushing Flush_enter\<rparr>"
  note defs = s7_def s6_def s5_def s4_def s3_def s2_def s1_def
  have "sys_step env s0 s1" unfolding s1_def by (rule reg_call) (simp add: i0)
  moreover have "sys_step env s1 s2" unfolding s2_def by (rule reg_check [of _ i ?req]) (simp_all add: s1_def i0)
  moreover have "sys_step env s2 s3" unfolding s3_def
    by (rule reg_add [of _ i ?req]) (simp_all add: s2_def s1_def a(1) del: reg_step.simps)
  moreover have "sys_step env s3 s4" unfolding s4_def by (rule reg_lock [of _ i e]) (simp_all add: s3_def s2_def s1_def i0)
  moreover have "sys_step env s4 s5" unfolding s5_def by (rule reg_insert [of _ i e]) (simp_all add: s4_def)
  moreover have "sys_step env s5 s6" unfolding s6_def by (rule agent_start) (simp add: defs i0)
  moreover have "sys_step env s6 s7" unfolding s7_def by (rule agent_flush) (simp add: s6_def)
  ultimately have "(sys_step env)\<^sup>*\<^sup>* s0 s7" by (meson rtranclp.rtrancl_into_rtrancl rtranclp.rtrancl_refl)
  moreover have "\<not> ub (shared s7)" "symbols_lock s7 = Some i" "clients s7 i = Some (Reg_inserting e)"
    "agent s7 = Agent_flushing Flush_enter"
    using a(3) i0 by (simp_all add: defs mutex_lock_def)
  ultimately show ?thesis using a(2) by blast
qed

section \<open>A registration that is finished before the start\<close>

lemma sys_register:
  assumes "clients s i = None" "\<not> g_evp_agent_started (shared s)" "symbols_lock s = None"
    and "\<And>h a. env_malloc env h a" "n \<noteq> 0" "\<not> unlinking (agent s)"
  shows "\<exists>t e. (sys_step env)\<^sup>*\<^sup>* s t \<and> clients t = clients s \<and> entry_key e = (m, p, n) \<and> agent t = agent s \<and>
    inserted t = inserted s @ [e] \<and> visited t = visited s"
proof -
  let ?req = "(Some m, Some p, n)"
  define s1 where "s1 = s\<lparr>clients := (clients s)(i \<mapsto> Reg_check ?req)\<rparr>"
  define s2 where "s2 = s1\<lparr>shared := shared s1, clients := (clients s1)(i \<mapsto> Reg_add ?req)\<rparr>"
  have "sys_step env s s1" unfolding s1_def by (rule reg_call) (simp add: assms(1))
  moreover have "sys_step env s1 s2" unfolding s2_def by (rule reg_check [of _ i ?req]) (simp_all add: s1_def assms(2))
  ultimately have r: "(sys_step env)\<^sup>*\<^sup>* s s2" by (meson rtranclp.rtrancl_into_rtrancl rtranclp.rtrancl_refl)
  have s2: "clients s2 i = Some (Reg_add ?req)" "symbols_lock s2 = None" "\<not> unlinking (agent s2)"
    by (simp_all add: s2_def s1_def assms(3,6))
  from sys_add [OF s2(1,2) assms(4,5) s2(3)] obtain t e where t: "(sys_step env)\<^sup>*\<^sup>* s2 t"
    "clients t = (clients s2)(i \<mapsto> Reg_return (Some e))" "entry_key e = (m, p, n)" "agent t = agent s2"
    "inserted t = inserted s2 @ [e]" "visited t = visited s2"
    by blast
  let ?u = "t\<lparr>clients := (clients t)(i := None)\<rparr>"
  have "sys_step env t ?u" by (rule reg_return [of _ _ "Some e"]) (simp add: t(2))
  with r t(1) have "(sys_step env)\<^sup>*\<^sup>* s ?u" by (meson rtranclp.rtrancl_into_rtrancl rtranclp_trans)
  moreover have "clients ?u = clients s" using assms(1) by (auto simp: t(2) s2_def s1_def fun_eq_iff)
  ultimately show ?thesis using t by (intro exI [of _ ?u] exI [of _ e]) (simp add: s2_def s1_def)
qed

text \<open>The agent thread can run the flush to its end.\<close>

lemma sys_flush_run:
  assumes "agent s = Agent_flushing pc" "flush_run env n (pc, shared s) = (pc', m)" "\<not> inserting s"
  shows "(sys_step env)\<^sup>*\<^sup>* s (s\<lparr>shared := m, agent := Agent_flushing pc'\<rparr>)"
  using assms
proof (induction n arbitrary: s pc)
  case 0
  then show ?case by (cases s) (auto simp: flush_run_simps)
next
  case (Suc n)
  obtain pc1 m1 where f: "flush_step env pc (shared s) = (pc1, m1)" by fastforce
  let ?t = "s\<lparr>shared := m1, agent := Agent_flushing pc1\<rparr>"
  have "sys_step env s ?t" using flush [OF Suc.prems(1) f] Suc.prems(3) by simp
  moreover have "(sys_step env)\<^sup>*\<^sup>* ?t (?t\<lparr>shared := m, agent := Agent_flushing pc'\<rparr>)"
    using Suc.IH [of ?t pc1] Suc.prems(2,3) f by (simp add: flush_run_simps inserting_def)
  ultimately show ?case by (simp add: converse_rtranclp_into_rtranclp)
qed

lemma sys_flush:
  assumes "agent s = Agent_starting" "sys_inv s" "\<not> inserting s" "\<And>h m p n. env_wasm_register_natives env h m p n"
  shows "\<exists>t. (sys_step env)\<^sup>*\<^sup>* s t \<and> agent t = Agent_flushing (Flush_return 0)"
proof -
  let ?s = "s\<lparr>agent := Agent_flushing Flush_enter\<rparr>"
  have 1: "sys_step env s ?s" by (rule agent_flush [OF assms(1)])
  have q: "distinct (map ne_block (symbols s))" "ne_block ` set (symbols s) \<subseteq> live (shared s)"
    using assms(2) by (auto simp: sys_inv_def inv_mem_def entry_blocks_def queue_blocks_def)
  have "fst (flush_loop env (symbols s) 0 (shared s)) = 0"
    using flush_loop_calls [of env "symbols s" 0 "shared s"] assms(4) by (auto simp: refused_def)
  with flush_loop_alone [OF refl q, of env 0] obtain m where
    "flush_run env (5 * length (symbols s) + 1) (Flush_next (tailq_first (symbols s)) 0, shared s) = (Flush_return 0, m)"
    by (metis surjective_pairing)
  then have "flush_run env (5 * length (symbols s) + 2) (Flush_enter, shared ?s) = (Flush_return 0, m)"
    by (simp add: flush_run_simps)
  from sys_flush_run [OF _ this] assms(3) 1 show ?thesis
    by (intro exI [of _ "?s\<lparr>shared := m, agent := Agent_flushing (Flush_return 0)\<rparr>"])
      (auto simp: inserting_def intro: converse_rtranclp_into_rtranclp)
qed

definition sys_boot :: sys where
  "sys_boot = \<lparr>shared = agent_boot, clients = \<lambda>_. None, agent = Agent_not_started, symbols_lock = None, inserted = []\<rparr>"

lemma sys_boot_init: "sys_init sys_boot"
  by (simp add: sys_boot_def sys_init_def agent_boot_facts native_visited_def)

text \<open>One registration, then the start, then the flush.\<close>

lemma quiet_run:
  "\<exists>s t e. (sys_step agent_env_ok)\<^sup>*\<^sup>* sys_boot s \<and> agent s = Agent_starting \<and> (\<forall>i. \<not> in_flight s i) \<and>
     (sys_step agent_env_ok)\<^sup>*\<^sup>* s t \<and> agent t = Agent_flushing (Flush_return 0) \<and> inserted s = [e] \<and>
     entry_key e = (''env'', 7, 1)"
proof -
  have b: "clients sys_boot = (\<lambda>_. None)" "\<not> g_evp_agent_started (shared sys_boot)" "symbols_lock sys_boot = None"
    "agent sys_boot = Agent_not_started" "inserted sys_boot = []"
    by (simp_all add: sys_boot_def agent_boot_facts)
  obtain r e where r: "(sys_step agent_env_ok)\<^sup>*\<^sup>* sys_boot r" "clients r = (\<lambda>_. None)" "entry_key e = (''env'', 7, 1)"
    "agent r = Agent_not_started" "inserted r = [e]"
    using sys_register [of sys_boot 0 agent_env_ok 1 "''env''" 7] b agent_env_ok_facts(2) by auto
  let ?s = "r\<lparr>shared := (shared r)\<lparr>g_evp_agent_started := True\<rparr>, agent := Agent_starting\<rparr>"
  have s: "(sys_step agent_env_ok)\<^sup>*\<^sup>* sys_boot ?s"
    using r(1) agent_start [OF r(4), of agent_env_ok] by (rule rtranclp.rtrancl_into_rtrancl)
  obtain t where t: "(sys_step agent_env_ok)\<^sup>*\<^sup>* ?s t" "agent t = Agent_flushing (Flush_return 0)"
    using sys_flush [of ?s agent_env_ok] before_flush.reachable_inv [OF sys_boot_init s] agent_env_ok_facts(3) r(2)
    by (auto simp: inserting_def)
  have "\<forall>i. \<not> in_flight ?s i" by (simp add: in_flight_def client_entry_def r(2))
  with s t r(3,5) show ?thesis by (intro exI [of _ ?s] exI [of _ t] exI [of _ e]) simp
qed

section \<open>Properties\<close>

text \<open>The steps are cut from the functions of the sequential model: a registration whose steps are
  not interrupted is \<open>EVP_wasm_runtime_register_natives\<close>, and a flush whose steps are not interrupted
  is \<open>evp_agent_flush_wasm_native_symbols\<close>.\<close>

lemma uninterrupted_steps_are_the_functions:
  assumes "queue_wf s"
  shows "(\<exists>r. reg_run env 6 (Reg_check (m, p, n), s) =
       (Reg_return r, snd (EVP_wasm_runtime_register_natives env m p n s)) \<and>
       (r \<noteq> None) = fst (EVP_wasm_runtime_register_natives env m p n s))"
    and "flush_run env (5 * length (g_wasm_native_symbols s) + 2) (Flush_enter, s) =
      (Flush_return (fst (evp_agent_flush_wasm_native_symbols env s)), snd (evp_agent_flush_wasm_native_symbols env s))"
proof -
  have "flush_run env (5 * length (g_wasm_native_symbols s) + 2) (Flush_enter, s) =
      flush_run env (5 * length (g_wasm_native_symbols s) + 1) (Flush_next (tailq_first (g_wasm_native_symbols s)) 0, s)"
    by (simp add: flush_run_simps)
  with flush_loop_alone [OF refl, of s env 0] assms show "flush_run env (5 * length (g_wasm_native_symbols s) + 2) (Flush_enter, s) =
      (Flush_return (fst (evp_agent_flush_wasm_native_symbols env s)), snd (evp_agent_flush_wasm_native_symbols env s))"
    by (simp add: evp_agent_flush_wasm_native_symbols_def queue_wf_def queue_blocks_def)
qed (rule reg_run_alone)

lemma quiet_start_inv:
  assumes "sys_init s0" "(sys_step env)\<^sup>*\<^sup>* s0 s" "agent s = Agent_starting" "\<forall>i. \<not> in_flight s i"
    and "(sys_step env)\<^sup>*\<^sup>* s t"
  shows "quiet_inv (inserted s) t"
proof -
  have "quiet_inv (inserted s) s"
    using assms(3,4) before_flush.reachable_inv [OF assms(1,2)] by (simp add: quiet_inv_def)
  then show ?thesis by (rule quiet.steps_inv [OF assms(5)])
qed

text \<open>C13. As long as no insertion can overlap the flush, any number of threads may register
  concurrently. In every interleaving of registering threads, the agent thread and other code, up
  to the moment the flush begins, and beyond it if no registration was under way when the agent
  thread had set \<open>started\<close>: nothing undefined happens in the queue (its entries are in allocated
  blocks of their own), the runtime is given the entries in the order of their insertion and none
  twice, the queue is the rest of what was inserted, at most one thread is between lock and
  unlock, and a registration that returned true has its entry inserted.\<close>

theorem concurrent_registration_safe:
  assumes "sys_init s0" "(sys_step env)\<^sup>*\<^sup>* s0 s"
    and "(\<forall>pc. agent s \<noteq> Agent_flushing pc) \<or>
      (\<exists>q. (sys_step env)\<^sup>*\<^sup>* s0 q \<and> agent q = Agent_starting \<and> (\<forall>i. \<not> in_flight q i) \<and> (sys_step env)\<^sup>*\<^sup>* q s)"
  shows "\<not> ub (shared s) \<and> queue_wf (shared s) \<and> prefix (visited s) (map entry_key (inserted s)) \<and>
    suffix (symbols s) (inserted s) \<and>
    (\<forall>i j pc pc'. clients s i = Some pc \<and> reg_locked pc \<and> clients s j = Some pc' \<and> reg_locked pc' \<longrightarrow> i = j) \<and>
    (\<forall>i e. clients s i = Some (Reg_return (Some e)) \<longrightarrow> e \<in> set (inserted s))"
proof -
  have "sys_inv s"
    using assms(3)
  proof
    assume "\<forall>pc. agent s \<noteq> Agent_flushing pc"
    then show ?thesis using before_flush.reachable_inv [OF assms(1,2)] by blast
  next
    assume "\<exists>q. (sys_step env)\<^sup>*\<^sup>* s0 q \<and> agent q = Agent_starting \<and> (\<forall>i. \<not> in_flight q i) \<and> (sys_step env)\<^sup>*\<^sup>* q s"
    then show ?thesis using quiet_start_inv [OF assms(1)] unfolding quiet_inv_def by blast
  qed
  then have inv: "inv_mem s" "inv_lock s" "inv_queue s" "inv_flags s" by (simp_all add: sys_inv_def)
  have "queue_wf (shared s)" "\<not> ub (shared s)" using inv(1) by (auto simp: inv_mem_def queue_wf_def entry_blocks_def)
  moreover obtain d where d: "inserted s = d @ symbols s" "agent_ok (agent s) (symbols s) d (visited s)"
    using inv(3) by (auto simp: inv_queue_def)
  moreover have "prefix (visited s) (map entry_key (inserted s))"
  proof (cases "(agent s, symbols s, d, visited s)" rule: agent_ok.cases)
    case (1 pc q d' v)
    have "prefix (visited s) (map entry_key (d @ symbols s))"
      using d(2) 1 by (cases pc) (auto simp: regs_ok_def intro: prefix_prefix)
    then show ?thesis by (simp only: d(1))
  qed (use d(2) in auto)
  moreover have "i = j" if "clients s i = Some pc" "reg_locked pc" "clients s j = Some pc'" "reg_locked pc'" for i j pc pc'
    using inv_lock_unique [OF inv(2) that] by simp
  ultimately show ?thesis using inv(4) by (auto simp: suffix_def inv_flags_def)
qed

theorem concurrent_registration_safe_witness:
  "\<exists>t. (sys_step agent_env_ok)\<^sup>*\<^sup>* sys_boot t \<and> agent t = Agent_flushing (Flush_return 0) \<and> \<not> ub (shared t) \<and>
     queue_wf (shared t) \<and> prefix (visited t) (map entry_key (inserted t))"
proof -
  obtain s t where r: "(sys_step agent_env_ok)\<^sup>*\<^sup>* sys_boot s" "agent s = Agent_starting" "\<forall>i. \<not> in_flight s i"
    "(sys_step agent_env_ok)\<^sup>*\<^sup>* s t" "agent t = Agent_flushing (Flush_return 0)"
    using quiet_run by blast
  then have "(sys_step agent_env_ok)\<^sup>*\<^sup>* sys_boot t" by simp
  from concurrent_registration_safe [OF sys_boot_init this] r this show ?thesis by blast
qed

text \<open>C34. The flush takes no lock, so the lock of an insertion does not protect it: from the start of the
  program there is an interleaving in which a registration that passed the check of \<open>started\<close> is
  inside \<open>TAILQ_INSERT_TAIL\<close>, holding the lock, when the flush reads the list, and the behaviour is
  undefined.\<close>

theorem unlocked_flush_races:
  assumes "sys_init s0" "\<And>h a. env_malloc env h a" "n \<noteq> 0"
  shows "\<exists>s t e. (sys_step env)\<^sup>*\<^sup>* s0 s \<and> \<not> ub (shared s) \<and> symbols_lock s = Some i \<and>
    clients s i = Some (Reg_inserting e) \<and> entry_key e = (m, p, n) \<and>
    agent s = Agent_flushing Flush_enter \<and> sys_step env s t \<and> ub (shared t)"
proof -
  obtain s e where s: "(sys_step env)\<^sup>*\<^sup>* s0 s" "\<not> ub (shared s)" "symbols_lock s = Some i"
    "clients s i = Some (Reg_inserting e)" "entry_key e = (m, p, n)" "agent s = Agent_flushing Flush_enter"
    using open_insertion [OF assms] by blast
  have "list_access Flush_enter \<and> inserting s" using s(4) by (auto simp: inserting_def)
  then have "sys_step env s (s\<lparr>shared := undefined_behaviour (shared s),
      agent := Agent_flushing (Flush_next (tailq_first (symbols s)) 0)\<rparr>)"
    using flush [OF s(6), of env] by simp
  with s show ?thesis by fastforce
qed

theorem unlocked_flush_races_witness:
  "\<exists>s t. (sys_step agent_env_ok)\<^sup>*\<^sup>* sys_boot s \<and> \<not> ub (shared s) \<and> sys_step agent_env_ok s t \<and> ub (shared t)"
  using unlocked_flush_races [OF sys_boot_init agent_env_ok_facts(2), of 1] by fastforce

text \<open>C12. If no registration is under way when the agent thread has set \<open>started\<close>, the flush loses
  nothing: when it returns 0, the runtime has been given exactly the entries inserted by then, in
  order, and the queue is empty, whatever threads try to register meanwhile.\<close>

theorem quiet_start_delivers_all:
  assumes "sys_init s0" "(sys_step env)\<^sup>*\<^sup>* s0 s" "agent s = Agent_starting" "\<forall>i. \<not> in_flight s i"
    and "(sys_step env)\<^sup>*\<^sup>* s t" "agent t = Agent_flushing (Flush_return 0)"
  shows "visited t = map entry_key (inserted s) \<and> symbols t = [] \<and> inserted t = inserted s"
proof -
  have q: "quiet_inv (inserted s) t" by (rule quiet_start_inv [OF assms(1-5)])
  then obtain d where d: "inserted t = d @ symbols t" "regs_ok 0 d (visited t)"
    using assms(6) by (auto simp: quiet_inv_def sys_inv_def inv_queue_def)
  with q assms(6) show ?thesis by (auto simp: quiet_inv_def regs_ok_def)
qed

theorem quiet_start_delivers_all_witness:
  "\<exists>t. (sys_step agent_env_ok)\<^sup>*\<^sup>* sys_boot t \<and> visited t = [(''env'', 7, 1)] \<and> symbols t = []"
proof -
  obtain s t e where r: "(sys_step agent_env_ok)\<^sup>*\<^sup>* sys_boot s" "agent s = Agent_starting" "\<forall>i. \<not> in_flight s i"
    "(sys_step agent_env_ok)\<^sup>*\<^sup>* s t" "agent t = Agent_flushing (Flush_return 0)" "inserted s = [e]"
    "entry_key e = (''env'', 7, 1)"
    using quiet_run by blast
  from quiet_start_delivers_all [OF sys_boot_init r(1-5)] r(1,4,6,7) show ?thesis
    by (intro exI [of _ t]) (auto intro: rtranclp_trans)
qed

text \<open>C33. The check of \<open>started\<close> and the insertion are not one step: a thread that checked before the
  agent started may insert after the flush has passed. No access overlaps, its registration returns true, and its
  symbols never reach the runtime, however the run continues.\<close>

theorem overtaken_registration_is_lost:
  assumes "sys_init s0" "\<And>h a. env_malloc env h a" "n \<noteq> 0"
  shows "\<exists>s e. (sys_step env)\<^sup>*\<^sup>* s0 s \<and> clients s i = Some (Reg_return (Some e)) \<and> entry_key e = (m, p, n) \<and>
    agent s = Agent_flushing (Flush_return 0) \<and> \<not> ub (shared s) \<and> (\<forall>t. (sys_step env)\<^sup>*\<^sup>* s t \<longrightarrow> (m, p, n) \<notin> set (visited t))"
proof -
  obtain s e where s: "(sys_step env)\<^sup>*\<^sup>* s0 s" "clients s i = Some (Reg_return (Some e))" "entry_key e = (m, p, n)"
    "agent s = Agent_flushing (Flush_return 0)" "visited s = []" "\<not> ub (shared s)"
    using lost_registration [OF assms] by blast
  have "visited t = []" if "(sys_step env)\<^sup>*\<^sup>* s t" for t
    using flushed.steps_inv [OF that, of 0 "[]"] s(4,5) by blast
  then show ?thesis using s by (intro exI [of _ s] exI [of _ e]) auto
qed

theorem overtaken_registration_is_lost_witness:
  "\<exists>s e. (sys_step agent_env_ok)\<^sup>*\<^sup>* sys_boot s \<and> clients s 0 = Some (Reg_return (Some e)) \<and>
     entry_key e = (''env'', 7, 1) \<and> (''env'', 7, 1) \<notin> set (visited s)"
  using overtaken_registration_is_lost [OF sys_boot_init agent_env_ok_facts(2), of 1 0 "''env''" 7] by auto

end
