(* ===== verification/Spec2Isabelle.thy ===== *)
theory Spec2Isabelle
  imports Agent_Run Agent_Concurrency
begin

text \<open>
  A verification development for the EVP agent of the AITRIOS Edge Device Core: the C program under
  \<open>src/evp-agent\<close>, which runs the agent of the EVP library in a thread of its own and connects it to
  the device (logs, event log, configuration, proxy, LEDs, watchdog, WASM runtime).

  \<^bold>\<open>The program.\<close> \<open>evp-agent.c\<close> owns the thread and the functions other parts of the device call
  (\<open>sdk_backdoor.h\<close>). The thread sets up the agent context, registers the log handler of
  \<open>log.c\<close>, fills the proxy cache of \<open>esf.c\<close>, subscribes the handlers of \<open>notifications.c\<close>, starts
  and connects the agent and then calls \<open>evp_agent_loop\<close> until it fails or shutdown is requested.
  From within its calls the library calls back: the handlers of the event log
  (\<open>notifications.c\<close>, which keep their codes in the table of \<open>log.c\<close>), the LED handler, the log
  handler, and the configuration functions of \<open>config.c\<close>, which read through \<open>esf.c\<close>.

  \<^bold>\<open>How it is modelled.\<close> Every C function is a function on a state record that is extended along
  the theories: \<open>io_state\<close> (history of external calls, live heap blocks, a flag \<open>ub\<close> for undefined
  behaviour), \<open>log_state\<close>, \<open>esf_state\<close>, \<open>notif_state\<close>, \<open>agent_state\<close>; each extension holds the
  file's globals. Code outside the repository is a record of functions, extended in the same way
  (\<open>libc_env\<close>, \<open>log_env\<close>, \<open>esf_env\<close>, \<open>config_env\<close>, \<open>notif_env\<close>, \<open>agent_env\<close>): each answers from the
  history so far, so that it may answer differently at every call. Every external call is
  recorded in the history. Freeing a block that is not live, comparing through NULL, writing
  outside a buffer or calling the library with a context that is not set up raises \<open>ub\<close>. Bytes and
  16- and 32-bit numbers are words; \<open>int\<close> results are integers; \<open>goto\<close> labels are functions of
  their own; error returns are the numbers the code returns.

  \<^item> \<open>Edc_Prelude\<close>: error numbers, the string functions of C on character lists, formatted
    printing with the directives the program uses, and lemmas on them.
  \<^item> \<open>Platform\<close>: state, heap, mutexes, history; what it means that a step only calls out, allocates
    exactly given blocks, or takes and releases mutexes in turn (\<open>balanced\<close>).
  \<^item> \<open>Log\<close> (\<open>log.c\<close>, \<open>log.h\<close>): the table of event-log components with its mutex
    (\<open>SystemRegElog\<close>, \<open>SystemSetELog\<close>, \<open>SystemGetELog\<close>), \<open>SystemDlog\<close>, \<open>evp_agent_dlog_handler\<close>. The
    table implements the locale of a component map; runs of operations refine a finite map with
    128 slots, report exactly the changes, and are one critical section each; the handler prints
    the message in chunks.
  \<^item> \<open>Esf\<close> (\<open>esf.c\<close>): TLS setting, proxy cache, search of certificate and key files,
    \<open>evp_agent_esf_read_config\<close>. Memory safety on every branch, the outcomes of the initialisation
    of the cache (the port text is written before the strings are copied and never reset), round
    trip of the proxy settings, content of what is read.
  \<^item> \<open>Config\<close> (\<open>config.c\<close>): the configuration functions and a locale for a configuration source;
    a session erases and releases what it read.
  \<^item> \<open>Notifications\<close> (\<open>notifications.c\<close> up to line 459): the handlers of blob, MQTT and network
    events. \<open>status_step\<close> is what they do to the fields of the two codes; from it follow, for every
    run of notifications, that the blob code shows the last blob operation, what the MQTT code
    reports on recovery, and that the codes avoid the error value of \<open>SystemGetELog\<close>. The numbers of
    the details are those of the code with the error numbers of Linux; four of the numbers the
    comment on the blob code gives are of another system.
  \<^item> \<open>Agent_Status\<close> (the rest of \<open>notifications.c\<close>): enrollment mode, LEDs, registration.
  \<^item> \<open>Agent_Api\<close> (\<open>evp-agent.c\<close> up to line 224): library calls with callbacks (\<open>agent_callback\<close>: the log
    handler, the subscribed handlers and the configuration functions of \<open>config.c\<close>), the backdoor
    functions, the queue of native symbols (locale \<open>symbol_queue\<close>).
  \<^item> \<open>Agent_Thread\<close> (the rest of \<open>evp-agent.c\<close>): the thread, its labels and main loop, startup and
    shutdown. An invariant (\<open>thread_inv\<close>) says what the thread holds after every step and which
    life-cycle calls it has made with which answers (\<open>lifecycle\<close>); the seven ways to end
    (\<open>thread_exit\<close>) give resource release, the order of the life-cycle calls and the exit code.
  \<^item> \<open>Agent_Run\<close>: complete runs: the run in which every call succeeds reaches the main loop and
    returns 0; the context published when the run is over.
  \<^item> \<open>Agent_Concurrency\<close>: registration and flush of native symbols cut into steps (\<open>reg_step\<close>,
    \<open>flush_step\<close>) and interleaved by \<open>sys_step\<close> for any number of registering threads. An insertion
    and a removal are windows with a beginning and an end; the flush takes no lock, and when it
    accesses the list while an insertion is open, or an insertion begins during a removal, the
    behaviour is undefined. Until the flush begins, and beyond it after a quiet start, the queue
    is safe and in order in every interleaving; a quiet start loses nothing; a registration that
    overlaps the start may race with the flush, or return true and be lost. The locale
    \<open>step_invariant\<close> carries the inductions.
  \<^item> This theory: the composition of registration and thread.

  \<^bold>\<open>Bounds and termination.\<close> All loops but one are recursions on a list or have a measure
  (\<open>component_to_entry_loop\<close>: the distance to the end of the table; \<open>dlog_chunks\<close>: the text that is
  left). The main loop of the thread may run forever and is a partial function into \<open>option\<close>: it is
  proved to return when shutdown is requested after some number of rounds. No fuel is used.

  \<^bold>\<open>Assumptions.\<close> \<open>esf_contract\<close>: the enumeration of configuration keys is injective, buffer sizes
  are positive, the system manager writes no more than the size it is given, \<open>read\<close> returns no
  more than it was asked for, the network manager fills in terminated strings when it reports
  success (\<open>proxy_param_ok\<close>), and a failed \<open>asprintf\<close> stores NULL. The last one is what the BSD
  manual promises; where the manual leaves the pointer undefined, as that of Linux does, the code
  may release a value it never set (\<open>read_cert_key_frees_unset_pointer\<close>). \<open>clock_contract\<close>: \<open>localtime_r\<close> yields a year that
  fits an \<open>int\<close>. \<open>zeroize_contract\<close>: \<open>mbedtls_platform_zeroize\<close> writes zeros. \<open>agent_contract\<close> adds that
  the library passes strings to its callbacks and log messages whose length fits an \<open>int\<close>. The
  library uses the configuration functions in the order of their interface: get, any number of
  loads and unloads, release, within one of its own calls (\<open>config_session\<close>). The assumptions are
  satisfied by the concrete environments the witnesses use.

  \<^bold>\<open>Not modelled.\<close> Outside \<open>Agent_Concurrency\<close> a function runs to its end, and another thread acts
  only through the answers of the environment (the flag \<open>signalled\<close>). The lock of the event-log
  table is taken inside \<open>assert\<close>: the model is the build without \<open>NDEBUG\<close>, which is how the build
  files configure it, and a mutex operation that fails, which then aborts the process, is left
  out. The label \<open>err_join_thread\<close> of \<open>evp_agent_startup\<close>, which no jump
  reaches. The submodules (manager, application, sensor) and the fetched libraries, whose sources
  are not in the repository; build, packaging and sample scripts; \<open>user_config.h\<close>, which holds
  switches of mbedTLS; the prototypes of \<open>esf.h\<close>, \<open>notifications.h\<close> and \<open>sdk_backdoor.h\<close>.
\<close>

section \<open>Properties that span the components\<close>

text \<open>C6. Native symbols registered with \<open>EVP_wasm_runtime_register_natives\<close> before the agent is started
  reach the runtime in the run of the agent thread: when every call succeeds and shutdown is
  requested after some number of rounds, the thread returns 0 and its life-cycle calls are the
  full pattern in which exactly these symbols are registered, in order, after the start and before
  the connection; all memory is given back, that of the queue and of the proxy cache included,
  and nothing undefined happened.\<close>

theorem registered_symbols_reach_runtime:
  assumes "calls_succeed env prm" "agent_contract env" "queue_wf s" "elog_wf s" "cache_empty (g_proxy_cache s)"
    and "queue_keys s = []" "\<not> g_evp_agent_started s" "\<forall>k \<in> set ks. snd (snd k) \<noteq> 0" "signalled_by env N"
    and "r = fold (\<lambda>k t. snd (register_key env k t)) ks s"
  shows "\<exists>t n ctxt cs. evp_agent_thread env r = Some t \<and> trace t = trace r @ cs \<and> 0 < n \<and>
    lifecycle env (trace r) cs = thread_calls env ctxt ks (Loop_ended (replicate n 0)) \<and>
    g_evp_agent_ret t = 0 \<and> live t = live s \<and> ub t = ub s"
proof -
  have "\<And>h a. env_malloc env h a" using assms(1) by (simp add: calls_succeed_def)
  note r = register_keys_accepted [OF assms(3,6,7) this assms(8,10)]
  have "elog_wf r" "cache_empty (g_proxy_cache r)" using r(6) assms(4,5) by (simp_all add: agent_rest_def)
  from thread_loop_ended [OF assms(1,2) r(1) this assms(9)] r(2,4) obtain t n ctxt A where
    t: "evp_agent_thread env r = Some t" "0 < n"
      "thread_done env r (live s) A [] (thread_calls env ctxt ks (Loop_ended (replicate n 0))) 0 t" by auto
  then obtain cs where "trace t = trace r @ cs"
      "lifecycle env (trace r) cs = thread_calls env ctxt ks (Loop_ended (replicate n 0))"
    by (auto simp only: thread_done_def thread_inv_def)
  moreover have "live t = live s" "ub t = ub s" "g_evp_agent_ret t = 0"
    using t(3) r(5) by (simp_all add: thread_done_def thread_inv_def cache_empty_ptrs)
  ultimately show ?thesis using t(1,2) by blast
qed

theorem registered_symbols_reach_runtime_witness:
  "let r = snd (register_key agent_env_run (''env'', 7, 2) agent_boot) in
   \<exists>t n ctxt cs. evp_agent_thread agent_env_run r = Some t \<and> trace t = trace r @ cs \<and>
     lifecycle agent_env_run (trace r) cs =
       thread_calls agent_env_run ctxt [(''env'', 7, 2)] (Loop_ended (replicate n 0)) \<and> live t = {} \<and> \<not> ub t"
  using registered_symbols_reach_runtime [OF agent_env_run_succeeds agent_run_hyps agent_boot_facts(2,3) _
      agent_env_run_facts(2) refl, of "[(''env'', 7, 2)]"]
  by (auto simp: agent_boot_facts)

end
